theory Spec2Isabelle
  imports Main
begin

section \<open>Python values and library behaviour used by \<open>goto/server.py\<close>\<close>

text \<open>
  Python \<open>str\<close> and \<open>bytes\<close> are both modelled as lists of characters. In the strings
  that the model takes apart (request paths, identifiers, digests, names of files) a
  character is a code point below 256, which is what \<open>http.server\<close> gives a request
  path, decoded as ISO-8859-1; a decoded content is only handed to the library
  functions, which are parameters of the model. The exceptions that the modelled code
  paths can raise are values of \<open>py_error\<close>; a function that can raise returns
  \<open>py_error + 'a\<close> with \<open>Inl\<close> for the exception.
\<close>

type_synonym bytes = string

datatype py_error =
    KeyError
  | ValueError
  | TypeError
  | UnicodeDecodeError
  | UnicodeEncodeError
  | OverflowError
  | MemoryError
  | FileNotFoundError
  | IsADirectoryError
  | NotADirectoryError
  | FileExistsError
  | OSError

subsection \<open>\<open>str(int)\<close>, \<open>range\<close> and slicing\<close>

definition digit_char :: "nat \<Rightarrow> char" where
  "digit_char n = ''0123456789'' ! (n mod 10)"

function str_nat :: "nat \<Rightarrow> string" where
  "str_nat n = (if n < 10 then [digit_char n] else str_nat (n div 10) @ [digit_char n])"
  by pat_completeness auto
termination
  by (relation "measure (\<lambda>n. n)") auto

declare str_nat.simps [simp del]

text \<open>\<open>str(i)\<close> for a Python integer: decimal digits, with a leading minus sign below zero.\<close>

definition str_int :: "int \<Rightarrow> string" where
  "str_int i = (if i < 0 then CHR ''-'' # str_nat (nat (- i)) else str_nat (nat i))"

text \<open>\<open>range(start, stop, step)\<close>; the source only uses a positive step.\<close>

function py_range :: "int \<Rightarrow> int \<Rightarrow> int \<Rightarrow> int list" where
  "py_range i stop step =
     (if 0 < step \<and> i < stop then i # py_range (i + step) stop step else [])"
  by pat_completeness auto
termination
  by (relation "measure (\<lambda>(i, stop, step). nat (stop - i))") auto

declare py_range.simps [simp del]

text \<open>
  A slice bound of Python: a negative bound counts from the end, and every bound is
  clamped to the length of the sequence.
\<close>

definition slice_bound :: "nat \<Rightarrow> int \<Rightarrow> nat" where
  "slice_bound n i = (if i < 0 then nat (int n + i) else min n (nat i))"

text \<open>\<open>s[i:j]\<close>\<close>

definition py_slice :: "'a list \<Rightarrow> int \<Rightarrow> int \<Rightarrow> 'a list" where
  "py_slice s i j =
     (let a = slice_bound (length s) i; b = slice_bound (length s) j
      in take (b - a) (drop a s))"

text \<open>\<open>s.split(sep)\<close> for a one-character separator: never returns an empty list.\<close>

fun split_sep :: "char \<Rightarrow> string \<Rightarrow> string list" where
  "split_sep c [] = [[]]"
| "split_sep c (x # xs) =
     (if x = c then [] # split_sep c xs
      else (case split_sep c xs of
              [] \<Rightarrow> [[x]]
            | w # ws \<Rightarrow> (x # w) # ws))"

subsection \<open>\<open>pathlib.Path\<close> on POSIX\<close>

text \<open>
  A pure POSIX path is its root (\<open>''''\<close> for a relative path, \<open>''/''\<close>, or \<open>''//''\<close> for
  exactly two leading slashes) and its components. Parsing a string splits it at the
  slashes and drops empty components and \<open>''.''\<close>; a \<open>''..''\<close> component is kept.
\<close>

record path =
  p_root :: string
  p_parts :: "string list"

definition path_root :: "string \<Rightarrow> string" where
  "path_root s =
     (if take 1 s \<noteq> ''/'' then ''''
      else if take 2 s = ''//'' \<and> take 3 s \<noteq> ''///'' then ''//''
      else ''/'')"

definition kept_part :: "string \<Rightarrow> bool" where
  "kept_part x = (x \<noteq> '''' \<and> x \<noteq> ''.'')"

definition Path :: "string \<Rightarrow> path" where
  "Path s = \<lparr>p_root = path_root s, p_parts = filter kept_part (split_sep CHR ''/'' s)\<rparr>"

text \<open>\<open>p / q\<close> for two paths: an absolute right operand replaces the left one.\<close>

definition joinpath :: "path \<Rightarrow> path \<Rightarrow> path" where
  "joinpath p q =
     (if p_root q \<noteq> '''' then q
      else \<lparr>p_root = p_root p, p_parts = p_parts p @ p_parts q\<rparr>)"

text \<open>\<open>p / s\<close> for a path and a string.\<close>

definition join_str :: "path \<Rightarrow> string \<Rightarrow> path" where
  "join_str p s = joinpath p (Path s)"

text \<open>\<open>p.parent\<close>: lexical, the path without its last component.\<close>

definition parent :: "path \<Rightarrow> path" where
  "parent p = (if p_parts p = [] then p else p\<lparr>p_parts := butlast (p_parts p)\<rparr>)"

fun intercalate :: "string \<Rightarrow> string list \<Rightarrow> string" where
  "intercalate sep [] = []"
| "intercalate sep [x] = x"
| "intercalate sep (x # y # ys) = x @ sep @ intercalate sep (y # ys)"

text \<open>\<open>str(p)\<close>\<close>

definition path_str :: "path \<Rightarrow> string" where
  "path_str p =
     (if p_root p = '''' \<and> p_parts p = [] then ''.''
      else p_root p @ intercalate ''/'' (p_parts p))"

section \<open>Path Sharding Scheme: \<open>file_location\<close>\<close>

text \<open>
  \<^verbatim>\<open>
  def file_location(algorithm, length, hash_digest):
      path = Path(algorithm) / f"l{str(length)}"
      for i in range(0, length - 2, 2):
          path = path / hash_digest[i : i + 2]
      path = path / hash_digest
      return path
  \<close>
\<close>

definition file_location :: "string \<Rightarrow> int \<Rightarrow> string \<Rightarrow> path" where
  "file_location algorithm length' hash_digest =
     (let path0 = join_str (Path algorithm) (''l'' @ str_int length');
          path1 = foldl (\<lambda>path i. join_str path (py_slice hash_digest i (i + 2)))
                    path0 (py_range 0 (length' - 2) 2)
      in join_str path1 hash_digest)"

section \<open>Bounded Cache: class \<open>LRU\<close>\<close>

text \<open>
  A \<open>collections.OrderedDict\<close> is an association list in insertion order, oldest entry
  first. Assigning to an existing key keeps its position; a new key goes to the end.
\<close>

type_synonym ('k, 'v) ordered_dict = "('k \<times> 'v) list"

definition od_contains :: "('k, 'v) ordered_dict \<Rightarrow> 'k \<Rightarrow> bool" where
  "od_contains od k = (k \<in> set (map fst od))"

fun od_setitem :: "('k, 'v) ordered_dict \<Rightarrow> 'k \<Rightarrow> 'v \<Rightarrow> ('k, 'v) ordered_dict" where
  "od_setitem [] k v = [(k, v)]"
| "od_setitem (x # xs) k v = (if fst x = k then (k, v) # xs else x # od_setitem xs k v)"

definition od_getitem :: "('k, 'v) ordered_dict \<Rightarrow> 'k \<Rightarrow> py_error + 'v" where
  "od_getitem od k = (case map_of od k of None \<Rightarrow> Inl KeyError | Some v \<Rightarrow> Inr v)"

definition od_move_to_end ::
  "('k, 'v) ordered_dict \<Rightarrow> 'k \<Rightarrow> py_error + ('k, 'v) ordered_dict" where
  "od_move_to_end od k =
     (case map_of od k of
        None \<Rightarrow> Inl KeyError
      | Some v \<Rightarrow> Inr (filter (\<lambda>x. fst x \<noteq> k) od @ [(k, v)]))"

text \<open>\<open>popitem(last=False)\<close>: removes and returns the oldest entry.\<close>

definition od_popitem_first ::
  "('k, 'v) ordered_dict \<Rightarrow> py_error + (('k \<times> 'v) \<times> ('k, 'v) ordered_dict)" where
  "od_popitem_first od = (case od of [] \<Rightarrow> Inl KeyError | x # xs \<Rightarrow> Inr (x, xs))"

record ('k, 'v) LRU =
  max_size :: int
  cache :: "('k, 'v) ordered_dict"

definition LRU_init :: "int \<Rightarrow> ('k, 'v) LRU" where
  "LRU_init m = \<lparr>max_size = m, cache = []\<rparr>"

definition LRU_contains :: "('k, 'v) LRU \<Rightarrow> 'k \<Rightarrow> bool" where
  "LRU_contains c k = od_contains (cache c) k"

text \<open>
  \<^verbatim>\<open>
  def __getitem__(self, key):
      self.cache.move_to_end(key)
      return self.cache[key]
  \<close>
\<close>

definition LRU_getitem :: "('k, 'v) LRU \<Rightarrow> 'k \<Rightarrow> py_error + ('v \<times> ('k, 'v) LRU)" where
  "LRU_getitem c k =
     (case od_move_to_end (cache c) k of
        Inl e \<Rightarrow> Inl e
      | Inr od \<Rightarrow>
          (case od_getitem od k of
             Inl e \<Rightarrow> Inl e
           | Inr v \<Rightarrow> Inr (v, c\<lparr>cache := od\<rparr>)))"

text \<open>
  \<^verbatim>\<open>
  def __setitem__(self, key, value):
      self.cache[key] = value
      self.cache.move_to_end(key)
      if len(self.cache) >= self.max_size:
          self.cache.popitem(last=False)
  \<close>
  \<open>LRU_insert\<close> is the state after the first two statements, \<open>LRU_evict\<close> the third.
\<close>

definition LRU_insert :: "('k, 'v) LRU \<Rightarrow> 'k \<Rightarrow> 'v \<Rightarrow> py_error + ('k, 'v) LRU" where
  "LRU_insert c k v =
     (case od_move_to_end (od_setitem (cache c) k v) k of
        Inl e \<Rightarrow> Inl e
      | Inr od \<Rightarrow> Inr (c\<lparr>cache := od\<rparr>))"

definition LRU_evict :: "('k, 'v) LRU \<Rightarrow> py_error + ('k, 'v) LRU" where
  "LRU_evict c =
     (if int (length (cache c)) \<ge> max_size c
      then (case od_popitem_first (cache c) of
              Inl e \<Rightarrow> Inl e
            | Inr (x, od) \<Rightarrow> Inr (c\<lparr>cache := od\<rparr>))
      else Inr c)"

definition LRU_setitem :: "('k, 'v) LRU \<Rightarrow> 'k \<Rightarrow> 'v \<Rightarrow> py_error + ('k, 'v) LRU" where
  "LRU_setitem c k v =
     (case LRU_insert c k v of
        Inl e \<Rightarrow> Inl e
      | Inr c1 \<Rightarrow> LRU_evict c1)"


text \<open>
  The cache states a program can reach: it builds an \<open>LRU\<close> with \<open>__init__\<close> and then only
  reads and writes it through \<open>__getitem__\<close> and \<open>__setitem__\<close>. A \<open>__getitem__\<close> that raises
  leaves the cache as it was.
\<close>

inductive LRU_reachable :: "int \<Rightarrow> ('k, 'v) LRU \<Rightarrow> bool" for m :: int where
  reach_init: "LRU_reachable m (LRU_init m)"
| reach_put: "LRU_reachable m c \<Longrightarrow> LRU_setitem c k v = Inr c' \<Longrightarrow> LRU_reachable m c'"
| reach_get: "LRU_reachable m c \<Longrightarrow> LRU_getitem c k = Inr (v, c') \<Longrightarrow> LRU_reachable m c'"

text \<open>A sequence of \<open>__setitem__\<close> calls, stopping at the first exception.\<close>

fun LRU_puts :: "('k, 'v) LRU \<Rightarrow> ('k \<times> 'v) list \<Rightarrow> py_error + ('k, 'v) LRU" where
  "LRU_puts c [] = Inr c"
| "LRU_puts c ((k, v) # kvs) =
     (case LRU_setitem c k v of Inl e \<Rightarrow> Inl e | Inr c' \<Rightarrow> LRU_puts c' kvs)"

section \<open>The file system under the state directory\<close>

text \<open>
  A file system maps locations to files and directories. A location is a path without
  \<open>''..''\<close> components; the location with no components (the working directory for a
  relative path, \<open>/\<close> for an absolute one) is always a directory and is the root of the
  modelled tree. Symbolic links, permissions and a full disk are not modelled, and the
  requests are handled one after another.
\<close>

datatype node = File bytes | Dir

type_synonym filesystem = "path \<Rightarrow> node option"

definition top_of :: "path \<Rightarrow> path" where
  "top_of p = p\<lparr>p_parts := []\<rparr>"

definition fs_lookup :: "filesystem \<Rightarrow> path \<Rightarrow> node option" where
  "fs_lookup fs p = (if p_parts p = [] then Some Dir else fs p)"

definition child :: "path \<Rightarrow> string \<Rightarrow> path" where
  "child p s = p\<lparr>p_parts := p_parts p @ [s]\<rparr>"

text \<open>
  The names that are refused, on Linux. Python raises \<open>ValueError\<close> for a path with a NUL
  character before it calls the kernel. The kernel refuses a path of \<open>PATH_MAX\<close> bytes or
  more before it walks it, and a component of more than \<open>NAME_MAX\<close> bytes when the walk
  looks it up in its directory: \<open>OSError\<close> with \<open>ENAMETOOLONG\<close>, which has no class of its
  own. A name reaches the kernel in UTF-8, where a character below 128 is one byte and a
  character from 128 to 255 is two.
\<close>

definition NAME_MAX :: nat where
  "NAME_MAX = 255"

definition PATH_MAX :: nat where
  "PATH_MAX = 4096"

definition fsencode_length :: "string \<Rightarrow> nat" where
  "fsencode_length s = length s + length (filter (\<lambda>c. 128 \<le> (of_char c :: nat)) s)"

text \<open>The lookup of the name \<open>s\<close> in the directory \<open>cur\<close>; \<open>''..''\<close> is the parent.\<close>

definition lookup_name :: "path \<Rightarrow> string \<Rightarrow> py_error + path" where
  "lookup_name cur s =
     (if s = ''..'' then Inr (parent cur)
      else if NAME_MAX < fsencode_length s then Inl OSError
      else Inr (child cur s))"

text \<open>
  The kernel's walk along the components of a path, from the location \<open>cur\<close>: every
  location it steps from must be a directory. The result is the location the path
  names, which need not exist.
\<close>

fun resolve :: "filesystem \<Rightarrow> path \<Rightarrow> string list \<Rightarrow> py_error + path" where
  "resolve fs cur [] = Inr cur"
| "resolve fs cur (s # ss) =
     (case fs_lookup fs cur of
        None \<Rightarrow> Inl FileNotFoundError
      | Some (File b) \<Rightarrow> Inl NotADirectoryError
      | Some Dir \<Rightarrow>
          (case lookup_name cur s of
             Inl e \<Rightarrow> Inl e
           | Inr found \<Rightarrow> resolve fs found ss))"

definition locate :: "filesystem \<Rightarrow> path \<Rightarrow> py_error + path" where
  "locate fs p =
     (if CHR 0x00 \<in> set (path_str p) then Inl ValueError
      else if PATH_MAX \<le> fsencode_length (path_str p) then Inl OSError
      else resolve fs (top_of p) (p_parts p))"

text \<open>\<open>p.read_bytes()\<close>\<close>

definition read_bytes :: "filesystem \<Rightarrow> path \<Rightarrow> py_error + bytes" where
  "read_bytes fs p =
     (case locate fs p of
        Inl e \<Rightarrow> Inl e
      | Inr q \<Rightarrow>
          (case fs_lookup fs q of
             None \<Rightarrow> Inl FileNotFoundError
           | Some Dir \<Rightarrow> Inl IsADirectoryError
           | Some (File b) \<Rightarrow> Inr b))"

text \<open>\<open>p.write_bytes(data)\<close>: creates the file or replaces its content.\<close>

definition write_bytes :: "filesystem \<Rightarrow> path \<Rightarrow> bytes \<Rightarrow> py_error + filesystem" where
  "write_bytes fs p data =
     (case locate fs p of
        Inl e \<Rightarrow> Inl e
      | Inr q \<Rightarrow>
          (case fs_lookup fs q of
             Some Dir \<Rightarrow> Inl IsADirectoryError
           | _ \<Rightarrow> Inr (fs(q \<mapsto> File data))))"

text \<open>\<open>os.mkdir(p)\<close>\<close>

definition os_mkdir :: "filesystem \<Rightarrow> path \<Rightarrow> py_error + filesystem" where
  "os_mkdir fs p =
     (case locate fs p of
        Inl e \<Rightarrow> Inl e
      | Inr q \<Rightarrow>
          (case fs_lookup fs q of
             None \<Rightarrow> Inr (fs(q \<mapsto> Dir))
           | Some n \<Rightarrow> Inl FileExistsError))"

text \<open>
  \<open>p.is_dir()\<close>: false when \<open>stat\<close> fails because the path does not exist or passes
  through a file, and when Python refuses the path (\<open>ValueError\<close>); another error of
  \<open>stat\<close> is raised.
\<close>

definition is_dir :: "filesystem \<Rightarrow> path \<Rightarrow> py_error + bool" where
  "is_dir fs p =
     (case locate fs p of
        Inl e \<Rightarrow>
          if e = FileNotFoundError \<or> e = NotADirectoryError \<or> e = ValueError then Inr False
          else Inl e
      | Inr q \<Rightarrow> Inr (fs_lookup fs q = Some Dir))"

text \<open>The exceptions of this model that are instances of \<open>OSError\<close>.\<close>

definition is_OSError :: "py_error \<Rightarrow> bool" where
  "is_OSError e =
     (e = OSError \<or> e = FileNotFoundError \<or> e = FileExistsError \<or> e = IsADirectoryError
      \<or> e = NotADirectoryError)"

text \<open>
  \<open>p.mkdir(parents=True, exist_ok=True)\<close>, as \<open>pathlib\<close> implements it:
  \<^verbatim>\<open>
  def mkdir(self, mode=0o777, parents=False, exist_ok=False):
      try:
          os.mkdir(self, mode)
      except FileNotFoundError:
          if not parents or self.parent == self:
              raise
          self.parent.mkdir(parents=True, exist_ok=True)
          self.mkdir(mode, parents=False, exist_ok=exist_ok)
      except OSError:
          if not exist_ok or not self.is_dir():
              raise
  \<close>
  The directories made before an error stay, so the file system is returned beside the
  error. \<open>mkdir_except_OSError\<close> is the second handler with \<open>exist_ok=True\<close>, for an
  exception \<open>e\<close> other than \<open>FileNotFoundError\<close>; \<open>mkdir_exist_ok\<close> is
  \<open>p.mkdir(parents=False, exist_ok=True)\<close>.
\<close>

definition mkdir_except_OSError :: "filesystem \<Rightarrow> path \<Rightarrow> py_error \<Rightarrow> py_error option" where
  "mkdir_except_OSError fs p e =
     (if is_OSError e then
        (case is_dir fs p of
           Inl e1 \<Rightarrow> Some e1
         | Inr d \<Rightarrow> if d then None else Some e)
      else Some e)"

definition mkdir_exist_ok :: "filesystem \<Rightarrow> path \<Rightarrow> py_error option \<times> filesystem" where
  "mkdir_exist_ok fs p =
     (case os_mkdir fs p of
        Inr fs1 \<Rightarrow> (None, fs1)
      | Inl e \<Rightarrow>
          if e = FileNotFoundError then (Some e, fs)
          else (mkdir_except_OSError fs p e, fs))"

function mkdir_parents :: "filesystem \<Rightarrow> path \<Rightarrow> py_error option \<times> filesystem" where
  "mkdir_parents fs p =
     (case os_mkdir fs p of
        Inr fs1 \<Rightarrow> (None, fs1)
      | Inl e \<Rightarrow>
          if e = FileNotFoundError then
            (if parent p = p then (Some e, fs)
             else (case mkdir_parents fs (parent p) of
                     (Some e1, fs1) \<Rightarrow> (Some e1, fs1)
                   | (None, fs1) \<Rightarrow> mkdir_exist_ok fs1 p))
          else (mkdir_except_OSError fs p e, fs))"
  by pat_completeness auto
termination
  by (relation "measure (\<lambda>(fs, p). length (p_parts p))")
     (auto simp: parent_def split: if_splits)

declare mkdir_parents.simps [simp del]

section \<open>Content Store: class \<open>ContentHasher\<close>\<close>

text \<open>
  The library functions the store and the handlers call are parameters of the model:
  \<^item> \<open>hashlib_new name\<close> is \<open>None\<close> when \<open>hashlib.new(name)\<close> raises \<open>ValueError\<close> for a
    name it does not support; otherwise it maps a content to what \<open>hexdigest()\<close> returns
    after \<open>update(content)\<close>, \<open>None\<close> when \<open>hexdigest()\<close> raises \<open>TypeError\<close> (the SHAKE
    algorithms, whose \<open>hexdigest\<close> needs a length);
  \<^item> \<open>decode\<close> is \<open>bytes.decode()\<close>, \<open>None\<close> for \<open>UnicodeDecodeError\<close>; \<open>encode\<close> is
    \<open>str.encode()\<close>, which does not raise on the strings of the handlers (they come from
    a decoded content or from a header, and have no lone surrogate);
  \<^item> \<open>latin1\<close> is \<open>str.encode('latin-1', 'strict')\<close>, \<open>None\<close> for \<open>UnicodeEncodeError\<close>;
  \<^item> \<open>urlparse_path s\<close> is \<open>urlparse(s).path\<close> and \<open>urlparse_geturl s\<close> is
    \<open>urlparse(s).geturl()\<close>, \<open>None\<close> when \<open>urlparse\<close> raises \<open>ValueError\<close>;
  \<^item> \<open>int_of_str\<close> is \<open>int(s)\<close> on a string, \<open>None\<close> for \<open>ValueError\<close>.
\<close>

record pylib =
  hashlib_new :: "string \<Rightarrow> (bytes \<Rightarrow> string option) option"
  decode :: "bytes \<Rightarrow> string option"
  encode :: "string \<Rightarrow> bytes"
  latin1 :: "string \<Rightarrow> bytes option"
  urlparse_path :: "string \<Rightarrow> string option"
  urlparse_geturl :: "string \<Rightarrow> string option"
  int_of_str :: "string \<Rightarrow> int option"

record ContentHasher =
  hash_algorithm :: string
  hash_length :: int
  state_dir :: path
  cache' :: "(string, bytes) LRU"

text \<open>\<open>ContentHasher.__init__\<close> only stores its arguments and builds the empty cache.\<close>

definition ContentHasher_init ::
  "string \<Rightarrow> int \<Rightarrow> path \<Rightarrow> int \<Rightarrow> py_error + ContentHasher" where
  "ContentHasher_init algorithm length' dir cache_size =
     Inr \<lparr>hash_algorithm = algorithm, hash_length = length', state_dir = dir,
          cache' = LRU_init cache_size\<rparr>"

text \<open>
  \<^verbatim>\<open>
  def hash(self, content):
      hash = hashlib.new(self.hash_algorithm)
      hash.update(content)
      return hash.hexdigest()[: self.hash_length]
  \<close>
\<close>

definition hash :: "pylib \<Rightarrow> ContentHasher \<Rightarrow> bytes \<Rightarrow> py_error + string" where
  "hash lib h content =
     (case hashlib_new lib (hash_algorithm h) of
        None \<Rightarrow> Inl ValueError
      | Some hexdigest \<Rightarrow>
          (case hexdigest content of
             None \<Rightarrow> Inl TypeError
           | Some digest \<Rightarrow> Inr (py_slice digest 0 (hash_length h))))"

text \<open>
  The state of the service is the store object and the file system. An operation
  returns its result or exception together with the state it leaves behind.
\<close>

type_synonym world = "ContentHasher \<times> filesystem"

definition file_path_of :: "ContentHasher \<Rightarrow> string \<Rightarrow> path" where
  "file_path_of h content_id =
     joinpath (state_dir h) (file_location (hash_algorithm h) (hash_length h) content_id)"

text \<open>
  \<^verbatim>\<open>
  def save(self, content):
      content_hash = self.hash(content)
      self.cache[content_hash] = content
      file_path = self.state_dir / file_location(
          self.hash_algorithm, self.hash_length, content_hash)
      file_path.parent.mkdir(parents=True, exist_ok=True)
      file_path.write_bytes(content)
      return content_hash
  \<close>
\<close>

definition save :: "pylib \<Rightarrow> world \<Rightarrow> bytes \<Rightarrow> (py_error + string) \<times> world" where
  "save lib w content =
     (case w of (h, fs) \<Rightarrow>
        (case hash lib h content of
           Inl e \<Rightarrow> (Inl e, (h, fs))
         | Inr content_hash \<Rightarrow>
             (case LRU_setitem (cache' h) content_hash content of
                Inl e \<Rightarrow> (Inl e, (h, fs))
              | Inr c \<Rightarrow>
                  (let h1 = h\<lparr>cache' := c\<rparr>;
                       file_path = file_path_of h content_hash
                   in case mkdir_parents fs (parent file_path) of
                        (Some e, fs1) \<Rightarrow> (Inl e, (h1, fs1))
                      | (None, fs1) \<Rightarrow>
                          (case write_bytes fs1 file_path content of
                             Inl e \<Rightarrow> (Inl e, (h1, fs1))
                           | Inr fs2 \<Rightarrow> (Inr content_hash, (h1, fs2)))))))"

section \<open>Request Handler: class \<open>CustomHTTPRequestHandler\<close>\<close>

text \<open>
  The lookup of \<open>do_GET\<close>, which the specification calls \<open>load\<close>:
  \<^verbatim>\<open>
  try:
      content = self.hasher.cache[content_id]
  except KeyError:
      try:
          content = (self.hasher.state_dir / file_location(...)).read_bytes()
          self.hasher.cache[content_id] = content
      except FileNotFoundError:
          ...
  \<close>
  Every exception is returned; \<open>do_GET\<close> below handles \<open>FileNotFoundError\<close>.
\<close>

definition load :: "world \<Rightarrow> string \<Rightarrow> (py_error + bytes) \<times> world" where
  "load w content_id =
     (case w of (h, fs) \<Rightarrow>
        (case LRU_getitem (cache' h) content_id of
           Inr (content, c) \<Rightarrow> (Inr content, (h\<lparr>cache' := c\<rparr>, fs))
         | Inl e \<Rightarrow>
             if e \<noteq> KeyError then (Inl e, (h, fs))
             else (case read_bytes fs (file_path_of h content_id) of
                     Inl e1 \<Rightarrow> (Inl e1, (h, fs))
                   | Inr content \<Rightarrow>
                       (case LRU_setitem (cache' h) content_id content of
                          Inl e2 \<Rightarrow> (Inl e2, (h, fs))
                        | Inr c \<Rightarrow> (Inr content, (h\<lparr>cache' := c\<rparr>, fs))))))"

text \<open>
  What a handler answers to a request with a version (\<open>HTTP/1.0\<close> or \<open>HTTP/1.1\<close>): the
  status of \<open>send_response\<close>, the headers of its own \<open>send_header\<close> calls, and what it
  writes to \<open>wfile\<close>. (For a request line without a version \<open>http.server\<close> writes neither
  the status line nor a header.) Writing to the connection and to the log is taken to
  succeed.
\<close>

record response =
  status :: int
  headers :: "(string \<times> string) list"
  body :: bytes

text \<open>\<open>parsed_url.path.split("/")[-1]\<close>\<close>

definition content_id_of :: "string \<Rightarrow> string" where
  "content_id_of url_path = last (split_sep CHR ''/'' url_path)"

text \<open>
  \<^verbatim>\<open>
  def do_GET(self):
      parsed_url = urlparse(self.path)
      content_id = parsed_url.path.split("/")[-1]
      try: ... (the lookup above)
          except FileNotFoundError:
              self.send_response(404)
              self.end_headers()
              return
      self.send_response(302)
      self.send_header("Location", content.decode())
      self.end_headers()
  \<close>
  \<open>send_header\<close> encodes the header line with \<open>encode('latin-1', 'strict')\<close>, which raises
  \<open>UnicodeEncodeError\<close> when the value has a character outside Latin-1 (the name and the
  separators are ASCII). An exception that leaves \<open>do_GET\<close> is raised before
  \<open>end_headers\<close>, so nothing is sent.
\<close>

definition do_GET :: "pylib \<Rightarrow> world \<Rightarrow> string \<Rightarrow> (py_error + response) \<times> world" where
  "do_GET lib w request_path =
     (case urlparse_path lib request_path of
        None \<Rightarrow> (Inl ValueError, w)
      | Some url_path \<Rightarrow>
          (case load w (content_id_of url_path) of
             (Inl e, w1) \<Rightarrow>
               if e = FileNotFoundError
               then (Inr \<lparr>status = 404, headers = [], body = []\<rparr>, w1)
               else (Inl e, w1)
           | (Inr content, w1) \<Rightarrow>
               (case decode lib content of
                  None \<Rightarrow> (Inl UnicodeDecodeError, w1)
                | Some location \<Rightarrow>
                    (case latin1 lib location of
                       None \<Rightarrow> (Inl UnicodeEncodeError, w1)
                     | Some line \<Rightarrow>
                         (Inr \<lparr>status = 302, headers = [(''Location'', location)],
                               body = []\<rparr>,
                          w1)))))"

text \<open>
  \<open>self.rfile.read(n)\<close>: the stream belongs to the request, so its \<open>read\<close> is an argument
  of the handler. \<open>rfile_read n\<close> is \<open>Some (Inr data)\<close> when the call returns \<open>data\<close>,
  \<open>Some (Inl e)\<close> when it raises \<open>e\<close> (\<open>ValueError\<close> for \<open>n < -1\<close>, \<open>OverflowError\<close> or
  \<open>MemoryError\<close> for an \<open>n\<close> too large for a buffer), and \<open>None\<close> when it never returns:
  the socket has no timeout, and the call waits until \<open>n\<close> bytes have come or the client
  has closed its side.
\<close>

type_synonym reader = "int \<Rightarrow> (py_error + bytes) option"

text \<open>A header value inside an f-string: a missing header is \<open>None\<close>.\<close>

definition format_header :: "string option \<Rightarrow> string" where
  "format_header v = (case v of None \<Rightarrow> ''None'' | Some s \<Rightarrow> s)"

text \<open>
  \<^verbatim>\<open>
  def do_POST(self):
      content_length = int(self.headers["Content-Length"])
      content = self.rfile.read(content_length)
      url = urlparse(content.decode()).geturl()
      if url:
          content_hash = self.hasher.save(url.encode())
          print(f"headers: {self.headers}")
          self.send_response(200)
          self.send_header("Content-type", "text/plain")
          self.end_headers()
          self.wfile.write(f'http://{self.headers["Host"]}/{content_hash}'.encode())
      else:
          self.send_response(400)
          self.end_headers()
          self.wfile.write(b"Invalid URL")
  \<close>
  \<open>request_headers\<close> is the lookup \<open>self.headers[name]\<close>, and \<open>print\<close> is taken to
  succeed. The result is \<open>None\<close> when the handler never returns.
\<close>

definition do_POST ::
  "pylib \<Rightarrow> world \<Rightarrow> (string \<Rightarrow> string option) \<Rightarrow> reader
     \<Rightarrow> ((py_error + response) \<times> world) option"
  where
  "do_POST lib w request_headers rfile_read =
     (case request_headers ''Content-Length'' of
        None \<Rightarrow> Some (Inl TypeError, w)
      | Some cl \<Rightarrow>
          (case int_of_str lib cl of
             None \<Rightarrow> Some (Inl ValueError, w)
           | Some content_length \<Rightarrow>
               (case rfile_read content_length of
                  None \<Rightarrow> None
                | Some (Inl e) \<Rightarrow> Some (Inl e, w)
                | Some (Inr content) \<Rightarrow>
                    (case decode lib content of
                       None \<Rightarrow> Some (Inl UnicodeDecodeError, w)
                     | Some text \<Rightarrow>
                         (case urlparse_geturl lib text of
                            None \<Rightarrow> Some (Inl ValueError, w)
                          | Some url \<Rightarrow>
                              if url \<noteq> [] then
                                (case save lib w (encode lib url) of
                                   (Inl e, w1) \<Rightarrow> Some (Inl e, w1)
                                 | (Inr content_hash, w1) \<Rightarrow>
                                     Some (Inr \<lparr>status = 200,
                                             headers = [(''Content-type'', ''text/plain'')],
                                             body = encode lib (''http://''
                                               @ format_header (request_headers ''Host'')
                                               @ ''/'' @ content_hash)\<rparr>,
                                           w1))
                              else Some (Inr \<lparr>status = 400, headers = [],
                                              body = ''Invalid URL''\<rparr>,
                                         w))))))"


section \<open>Notions used to state the properties\<close>

text \<open>
  With a maximum of at least 1, every reachable cache has distinct keys and fewer
  entries than its maximum.
\<close>

definition LRU_inv :: "int \<Rightarrow> ('k, 'v) LRU \<Rightarrow> bool" where
  "LRU_inv m c = (max_size c = m \<and> distinct (map fst (cache c)) \<and> int (length (cache c)) < m)"

text \<open>
  A string that \<open>pathlib\<close> keeps as one path component when it is joined to a path: not
  empty, not \<open>''.''\<close>, and without a slash. Hexadecimal digests and the names of hash
  algorithms are such strings.
\<close>

definition plain :: "string \<Rightarrow> bool" where
  "plain s = (s \<noteq> [] \<and> s \<noteq> ''.'' \<and> CHR ''/'' \<notin> set s)"

text \<open>
  The shard segments as the specification lists them: the slice \<open>digest[i:i+2]\<close> for each
  \<open>i\<close> in \<open>0, 2, 4, ...\<close> while \<open>i < L - 2\<close>.
\<close>

definition shard_segments :: "int \<Rightarrow> string \<Rightarrow> string list" where
  "shard_segments L digest =
     map (\<lambda>i. py_slice digest (int i) (int i + 2)) (filter even [0..<nat (L - 2)])"

text \<open>
  A table of library values for the examples: the SHA-256 hex digests of the contents
  \<open>a\<close>, \<open>b\<close> and \<open>a?\<close> (every other content is given the digest of the empty content),
  \<open>urlparse(s).geturl()\<close>, which drops the empty query of \<open>a?\<close> and returns the other
  strings used here unchanged, \<open>urlparse(s).path\<close> for request paths without query or
  fragment, the codecs on ASCII text, and \<open>int\<close> on two decimal strings.
\<close>

definition sha256_hex :: "bytes \<Rightarrow> string" where
  "sha256_hex content =
     (if content = ''a''
        then ''ca978112ca1bbdcafac231b39a23dc4da786eff8147c4e72b9807785afee48bb''
      else if content = ''b''
        then ''3e23e8160039594a33894f6564e1b1348bbd7a0088d42c4acb73eeaed59c009d''
      else if content = ''a?''
        then ''5289f1df3e143b323d3d26e0816d7b06572117be0544accbfd230e8914ed1edc''
      else ''e3b0c44298fc1c149afbf4c8996fb92427ae41e4649b934ca495991b7852b855'')"

definition example_lib :: pylib where
  "example_lib =
     \<lparr>hashlib_new =
        (\<lambda>name. if name = ''sha256'' then Some (\<lambda>content. Some (sha256_hex content))
                else None),
      decode = Some,
      encode = (\<lambda>s. s),
      latin1 = Some,
      urlparse_path = Some,
      urlparse_geturl = (\<lambda>s. if s = ''a?'' then Some ''a'' else Some s),
      int_of_str = (\<lambda>s. if s = ''1'' then Some 1 else if s = ''2'' then Some 2 else None)\<rparr>"

text \<open>
  The store that \<open>run_server\<close> builds with the default configuration, except for the hash
  length and the cache size, over an empty file system.
\<close>

definition example_hasher :: "int \<Rightarrow> int \<Rightarrow> ContentHasher" where
  "example_hasher length' cache_size =
     \<lparr>hash_algorithm = ''sha256'', hash_length = length',
      state_dir = Path ''goto_state'', cache' = LRU_init cache_size\<rparr>"

definition example_world :: "int \<Rightarrow> int \<Rightarrow> world" where
  "example_world length' cache_size = (example_hasher length' cache_size, Map.empty)"

text \<open>
  A non-empty string of lowercase hexadecimal digits; a digest provider whose
  \<open>hexdigest()\<close> returns such a string for the configured algorithm; and a store all of
  whose digests, after truncation, are such strings.
\<close>

definition hexdigits :: string where
  "hexdigits = ''0123456789abcdef''"

definition is_hex :: "string \<Rightarrow> bool" where
  "is_hex s = (s \<noteq> [] \<and> set s \<subseteq> set hexdigits)"

definition hex_provider :: "pylib \<Rightarrow> string \<Rightarrow> bool" where
  "hex_provider lib name =
     (case hashlib_new lib name of
        None \<Rightarrow> False
      | Some hexdigest \<Rightarrow>
          \<forall>content. case hexdigest content of None \<Rightarrow> False | Some digest \<Rightarrow> is_hex digest)"

definition hex_digests :: "pylib \<Rightarrow> ContentHasher \<Rightarrow> bool" where
  "hex_digests lib h = (\<forall>content d. hash lib h content = Inr d \<longrightarrow> is_hex d)"

text \<open>
  The states of the service that a sequence of requests reaches from the state \<open>w0\<close>: a
  \<open>save\<close> that returns a digest, and a lookup of the identifier that \<open>do_GET\<close> takes from a
  request path, whatever the lookup returns or raises.
\<close>

inductive reachable :: "pylib \<Rightarrow> world \<Rightarrow> world \<Rightarrow> bool" for lib :: pylib and w0 :: world where
  reach_start: "reachable lib w0 w0"
| reach_save: "reachable lib w0 w \<Longrightarrow> save lib w content = (Inr d, w') \<Longrightarrow> reachable lib w0 w'"
| reach_load:
    "reachable lib w0 w \<Longrightarrow> load w (content_id_of url_path) = (r, w') \<Longrightarrow> reachable lib w0 w'"

text \<open>
  Two properties of the file systems that the store builds: a file is named by a
  hexadecimal digest, and whatever exists lies in a directory.
\<close>

definition files_named_hex :: "filesystem \<Rightarrow> bool" where
  "files_named_hex fs =
     (\<forall>q b. fs q = Some (File b) \<longrightarrow> p_parts q \<noteq> [] \<and> is_hex (last (p_parts q)))"

definition fs_wf :: "filesystem \<Rightarrow> bool" where
  "fs_wf fs =
     (\<forall>x. fs x \<noteq> None \<longrightarrow> p_parts x \<noteq> [] \<longrightarrow> fs_lookup fs (parent x) = Some Dir)"

text \<open>The configuration of a store never changes; only its cache does.\<close>

definition same_config :: "ContentHasher \<Rightarrow> ContentHasher \<Rightarrow> bool" where
  "same_config h h0 =
     (hash_algorithm h = hash_algorithm h0 \<and> hash_length h = hash_length h0
      \<and> state_dir h = state_dir h0)"

text \<open>
  The invariant of the store: every cache entry has a hexadecimal key and the file at
  the key's path holds the entry's bytes.
\<close>

definition store_inv :: "ContentHasher \<Rightarrow> world \<Rightarrow> bool" where
  "store_inv h0 w =
     (case w of (h, fs) \<Rightarrow>
        same_config h h0 \<and> files_named_hex fs \<and> fs_wf fs
        \<and> (\<forall>(k, v) \<in> set (cache (cache' h)).
              is_hex k \<and> read_bytes fs (file_path_of h k) = Inr v))"

text \<open>
  The headers of an example POST request with a body of two bytes, and the \<open>read\<close> of a
  stream that holds \<open>data\<close> and then ends (the client has sent \<open>data\<close> and closed its side)
  on a 64-bit platform, as long as a buffer of \<open>n\<close> bytes can be allocated.
\<close>

definition stream_read :: "bytes \<Rightarrow> reader" where
  "stream_read data n =
     (if n < - 1 then Some (Inl ValueError)
      else if n = - 1 then Some (Inr data)
      else if 2 ^ 63 - 1 \<le> n then Some (Inl OverflowError)
      else Some (Inr (take (nat n) data)))"

definition example_headers :: "string \<Rightarrow> string option" where
  "example_headers name =
     (if name = ''Content-Length'' then Some ''2''
      else if name = ''Host'' then Some ''localhost''
      else None)"

text \<open>
  An example run with hash length 0, where every digest is the empty string: a save of
  \<open>a\<close>, a GET of \<open>/.\<close>, and a save of \<open>b\<close>.
\<close>

definition alias_w1 :: world where
  "alias_w1 = snd (save example_lib (example_world 0 100) ''a'')"

definition alias_w2 :: world where
  "alias_w2 = snd (load alias_w1 (content_id_of ''/.''))"

definition alias_w3 :: world where
  "alias_w3 = snd (save example_lib alias_w2 ''b'')"

text \<open>The example state after one save of \<open>a\<close> with the default hash length 5.\<close>

definition saved_a :: world where
  "saved_a = snd (save example_lib (example_world 5 100) ''a'')"

text \<open>In a well-formed file system every location that a walk reaches lies in a directory.\<close>

definition in_dir :: "filesystem \<Rightarrow> path \<Rightarrow> bool" where
  "in_dir fs q = (p_parts q = [] \<or> fs_lookup fs (parent q) = Some Dir)"

text \<open>What \<open>os.mkdir\<close> and \<open>mkdir(parents=True)\<close> change: they only add directories.\<close>

definition adds_dirs :: "filesystem \<Rightarrow> filesystem \<Rightarrow> bool" where
  "adds_dirs fs fs' = (\<forall>x. fs' x = fs x \<or> (fs x = None \<and> fs' x = Some Dir))"

section \<open>Properties of the Bounded Cache\<close>

lemma map_of_od_setitem: "map_of (od_setitem od k v) = (map_of od)(k \<mapsto> v)"
  by (induction od) (auto simp: fun_eq_iff)

lemma filter_od_setitem:
  "filter (\<lambda>x. fst x \<noteq> k) (od_setitem od k v) = filter (\<lambda>x. fst x \<noteq> k) od"
  by (induction od) auto

lemma od_move_to_end_setitem:
  "od_move_to_end (od_setitem od k v) k = Inr (filter (\<lambda>x. fst x \<noteq> k) od @ [(k, v)])"
  by (simp add: od_move_to_end_def map_of_od_setitem filter_od_setitem)

lemma LRU_insert_eq:
  "LRU_insert c k v = Inr (c\<lparr>cache := filter (\<lambda>x. fst x \<noteq> k) (cache c) @ [(k, v)]\<rparr>)"
  by (simp add: LRU_insert_def od_move_to_end_setitem)

text \<open>\<open>__setitem__\<close> never raises: after the insertion the dictionary is not empty.\<close>

lemma LRU_setitem_eq:
  "LRU_setitem c k v =
     (let od = filter (\<lambda>x. fst x \<noteq> k) (cache c) @ [(k, v)]
      in Inr (c\<lparr>cache := (if max_size c \<le> int (length od) then tl od else od)\<rparr>))"
  by (simp add: LRU_setitem_def LRU_insert_eq LRU_evict_def od_popitem_first_def Let_def
      split: list.splits)

lemma key_notin_filter: "k \<notin> fst ` set (filter (\<lambda>x. fst x \<noteq> k) od)"
  by auto

lemma map_of_filter_key: "map_of (filter (\<lambda>x. fst x \<noteq> k) od) k = None"
  by (simp only: map_of_eq_None_iff key_notin_filter not_False_eq_True)

lemma map_of_moved: "map_of (filter (\<lambda>x. fst x \<noteq> k) od @ [(k, v)]) k = Some v"
  by (simp add: map_add_def map_of_filter_key)

lemma distinct_moved:
  "distinct (map fst od) \<Longrightarrow> distinct (map fst (filter (\<lambda>x. fst x \<noteq> k) od @ [(k, v)]))"
  using key_notin_filter[of k od] by (simp add: distinct_map_filter)

lemma length_filter_key_present:
  "distinct (map fst od) \<Longrightarrow> k \<in> fst ` set od \<Longrightarrow>
   Suc (length (filter (\<lambda>x. fst x \<noteq> k) od)) = length od"
proof (induction od)
  case Nil
  then show ?case by simp
next
  case (Cons x xs)
  show ?case
  proof (cases "fst x = k")
    case True
    with Cons.prems have "k \<notin> fst ` set xs" by auto
    then have "filter (\<lambda>x. fst x \<noteq> k) xs = xs"
      by (auto simp: filter_id_conv)
    with True show ?thesis by simp
  next
    case False
    with Cons show ?thesis by auto
  qed
qed

lemma length_filter_key_absent:
  "k \<notin> fst ` set od \<Longrightarrow> length (filter (\<lambda>x. fst x \<noteq> k) od) = length od"
  by (induction od) auto

lemma LRU_getitem_eq:
  "LRU_getitem c k =
     (case map_of (cache c) k of
        None \<Rightarrow> Inl KeyError
      | Some v \<Rightarrow> Inr (v, c\<lparr>cache := filter (\<lambda>x. fst x \<noteq> k) (cache c) @ [(k, v)]\<rparr>))"
proof (cases "map_of (cache c) k")
  case None
  then show ?thesis by (simp add: LRU_getitem_def od_move_to_end_def)
next
  case (Some v)
  then show ?thesis
    by (simp add: LRU_getitem_def od_move_to_end_def od_getitem_def map_of_moved
        del: map_of_append)
qed

lemma LRU_inv_setitem:
  assumes "LRU_inv m c" and "LRU_setitem c k v = Inr c'"
  shows "LRU_inv m c'"
proof -
  let ?od = "filter (\<lambda>x. fst x \<noteq> k) (cache c) @ [(k, v)]"
  have d: "distinct (map fst ?od)"
    using assms(1) distinct_moved[of "cache c" k v] by (simp add: LRU_inv_def)
  have "length (filter (\<lambda>x. fst x \<noteq> k) (cache c)) \<le> length (cache c)"
    by (rule length_filter_le)
  then have l: "length ?od \<le> Suc (length (cache c))" by simp
  have c': "c' = c\<lparr>cache := (if max_size c \<le> int (length ?od) then tl ?od else ?od)\<rparr>"
    using assms(2) by (simp add: LRU_setitem_eq Let_def)
  have "distinct (map fst (tl ?od))"
    using d by (simp add: distinct_tl map_tl)
  moreover have "length (tl ?od) = length ?od - 1" by (rule length_tl)
  ultimately show ?thesis
    using d c' assms(1) l by (auto simp: LRU_inv_def simp del: length_filter_le)
qed

lemma LRU_inv_getitem:
  assumes "LRU_inv m c" and "LRU_getitem c k = Inr (v, c')"
  shows "LRU_inv m c'"
proof -
  from assms(2) have m: "map_of (cache c) k = Some v"
    and c': "c' = c\<lparr>cache := filter (\<lambda>x. fst x \<noteq> k) (cache c) @ [(k, v)]\<rparr>"
    by (auto simp: LRU_getitem_eq split: option.splits)
  from m have "k \<in> fst ` set (cache c)"
    by (metis domI dom_map_of_conv_image_fst)
  with assms(1) have "Suc (length (filter (\<lambda>x. fst x \<noteq> k) (cache c))) = length (cache c)"
    by (simp add: LRU_inv_def length_filter_key_present)
  with assms(1) c' distinct_moved[of "cache c" k v] show ?thesis
    by (simp add: LRU_inv_def)
qed

lemma LRU_reachable_inv:
  assumes "1 \<le> m"
  shows "LRU_reachable m c \<Longrightarrow> LRU_inv m c"
proof (induction rule: LRU_reachable.induct)
  case reach_init
  show ?case using assms by (simp add: LRU_inv_def LRU_init_def)
next
  case (reach_put c k v c')
  from reach_put.IH reach_put.hyps(2) show ?case by (rule LRU_inv_setitem)
next
  case (reach_get c k v c')
  from reach_get.IH reach_get.hyps(2) show ?case by (rule LRU_inv_getitem)
qed

text \<open>
  C2 does not hold of the code. It states: a cache of maximum size 2 that starts empty holds
  exactly \<open>{B, C}\<close> after the keys \<open>A\<close>, \<open>B\<close>, \<open>C\<close> are inserted in that order. The code evicts
  as soon as the size reaches the maximum, so it evicts \<open>A\<close> when \<open>B\<close> is inserted and \<open>B\<close>
  when \<open>C\<close> is inserted: only \<open>C\<close> is resident.
\<close>

theorem C2_three_puts_capacity_two:
  "LRU_puts (LRU_init 2) [(''A'', ''a''), (''B'', ''b''), (''C'', ''c'')]
     = Inr \<lparr>max_size = 2, cache = [(''C'', ''c'')]\<rparr>
   \<and> \<not> LRU_contains \<lparr>max_size = 2, cache = [(''C'', ''c'')]\<rparr> ''B''"
  by (simp add: LRU_setitem_eq LRU_init_def LRU_contains_def od_contains_def)

text \<open>
  C3 does not hold as stated. It states: for every maximum \<open>M\<close>, a put inserts or overwrites the entry
  and makes it the most recently used, then evicts the least recently used entry when
  the size is at least \<open>M\<close>, so the size is at most \<open>M\<close> at every point. For \<open>M = 0\<close> the
  first put holds one entry after its insertion, which exceeds \<open>M\<close>.
\<close>

theorem C3_size_exceeds_maximum_zero:
  "LRU_insert (LRU_init 0) ''A'' ''a'' = Inr \<lparr>max_size = 0, cache = [(''A'', ''a'')]\<rparr>
   \<and> max_size \<lparr>max_size = 0, cache = [(''A'', ''a'')]\<rparr>
       < int (length (cache \<lparr>max_size = 0, cache = [(''A'', ''a'')]\<rparr>))"
  by (simp add: LRU_insert_eq LRU_init_def)

text \<open>
  C3, as amended: for every maximum \<open>M \<ge> 1\<close> and every cache reachable from the empty
  one, a put of \<open>(k, v)\<close> moves the entry to the most recently used end with the value \<open>v\<close>
  (the other entries keep their order; the size grows by one exactly when \<open>k\<close> is new),
  then removes the oldest entry exactly when the size is at least \<open>M\<close>. The size is below
  \<open>M\<close> before and after the put and at most \<open>M\<close> in between.
\<close>

theorem C3_put_inserts_then_evicts:
  assumes "1 \<le> m" and "LRU_reachable m c"
  shows "\<exists>c1 c2. LRU_insert c k v = Inr c1 \<and> LRU_setitem c k v = Inr c2
     \<and> cache c1 = filter (\<lambda>x. fst x \<noteq> k) (cache c) @ [(k, v)]
     \<and> map_of (cache c1) k = Some v
     \<and> length (cache c1) = (if LRU_contains c k then length (cache c) else length (cache c) + 1)
     \<and> cache c2 = (if m \<le> int (length (cache c1)) then tl (cache c1) else cache c1)
     \<and> int (length (cache c)) < m \<and> int (length (cache c1)) \<le> m
     \<and> int (length (cache c2)) < m"
proof -
  let ?od = "filter (\<lambda>x. fst x \<noteq> k) (cache c) @ [(k, v)]"
  let ?c1 = "c\<lparr>cache := ?od\<rparr>"
  let ?c2 = "c\<lparr>cache := (if max_size c \<le> int (length ?od) then tl ?od else ?od)\<rparr>"
  have inv: "LRU_inv m c" using assms by (simp add: LRU_reachable_inv)
  have s: "LRU_setitem c k v = Inr ?c2" by (simp add: LRU_setitem_eq Let_def)
  have inv2: "LRU_inv m ?c2" using inv s by (rule LRU_inv_setitem)
  have len: "length ?od = (if LRU_contains c k then length (cache c) else length (cache c) + 1)"
    using inv length_filter_key_present[of "cache c" k] length_filter_key_absent[of k "cache c"]
    by (auto simp: LRU_inv_def LRU_contains_def od_contains_def)
  have m: "max_size c = m" using inv by (simp add: LRU_inv_def)
  have "map_of ?od k = Some v" by (rule map_of_moved)
  moreover have "int (length ?od) \<le> m"
    using inv by (auto simp only: LRU_inv_def len split: if_splits)
  moreover have "int (length (cache ?c2)) < m" using inv2 by (simp only: LRU_inv_def)
  moreover have "int (length (cache c)) < m" using inv by (simp add: LRU_inv_def)
  ultimately show ?thesis
    using LRU_insert_eq[of c k v] s len m by (intro exI[of _ ?c1] exI[of _ ?c2]) simp
qed

theorem C3_put_inserts_then_evicts_witness:
  "(1::int) \<le> 2 \<and> LRU_reachable 2 \<lparr>max_size = 2, cache = [(''A'', ''a'')]\<rparr>
   \<and> (\<exists>c1 c2. LRU_insert \<lparr>max_size = 2, cache = [(''A'', ''a'')]\<rparr> ''B'' ''b'' = Inr c1
        \<and> LRU_setitem \<lparr>max_size = 2, cache = [(''A'', ''a'')]\<rparr> ''B'' ''b'' = Inr c2
        \<and> cache c1 = [(''A'', ''a''), (''B'', ''b'')]
        \<and> cache c2 = [(''B'', ''b'')]
        \<and> int (length (cache c1)) \<le> 2 \<and> int (length (cache c2)) < 2)"
proof -
  have h1: "(1::int) \<le> 2" by simp
  have "LRU_setitem (LRU_init 2) ''A'' ''a'' = Inr \<lparr>max_size = 2, cache = [(''A'', ''a'')]\<rparr>"
    by (simp add: LRU_setitem_eq LRU_init_def)
  with reach_init[of 2] have h2: "LRU_reachable 2 \<lparr>max_size = 2, cache = [(''A'', ''a'')]\<rparr>"
    by (rule reach_put)
  from C3_put_inserts_then_evicts[OF h1 h2, of "''B''" "''b''"] h1 h2 show ?thesis
    by auto
qed

text \<open>
  C4 does not hold of the code. It states: with maximum size 2, after put \<open>A\<close>, put \<open>B\<close>, the get of
  \<open>A\<close> succeeds and promotes \<open>A\<close>, and put \<open>C\<close> then evicts \<open>B\<close> and keeps \<open>A\<close>. In the code the
  put of \<open>B\<close> has already evicted \<open>A\<close>: the get of \<open>A\<close> raises \<open>KeyError\<close>, and after the put
  of \<open>C\<close> only \<open>C\<close> is resident.
\<close>

theorem C4_get_after_two_puts_raises:
  "LRU_puts (LRU_init 2) [(''A'', ''a''), (''B'', ''b'')]
     = Inr \<lparr>max_size = 2, cache = [(''B'', ''b'')]\<rparr>
   \<and> LRU_getitem \<lparr>max_size = 2, cache = [(''B'', ''b'')]\<rparr> ''A'' = Inl KeyError
   \<and> LRU_setitem \<lparr>max_size = 2, cache = [(''B'', ''b'')]\<rparr> ''C'' ''c''
     = Inr \<lparr>max_size = 2, cache = [(''C'', ''c'')]\<rparr>"
  by (simp add: LRU_setitem_eq LRU_getitem_eq LRU_init_def)

text \<open>
  C10. With maximum size 1 every put evicts the entry it has just inserted: after any
  sequence of puts into the empty cache the cache is empty again, no key is contained,
  and every get raises \<open>KeyError\<close>.
\<close>

theorem C10_capacity_one_retains_nothing:
  "LRU_puts (LRU_init 1) (kvs :: ('k \<times> 'v) list) = Inr (LRU_init 1)
   \<and> LRU_insert (LRU_init 1) k v = Inr \<lparr>max_size = 1, cache = [(k, v)]\<rparr>
   \<and> LRU_evict \<lparr>max_size = 1, cache = [(k, v)]\<rparr> = Inr (LRU_init 1)
   \<and> cache (LRU_init 1 :: ('k, 'v) LRU) = []
   \<and> \<not> LRU_contains (LRU_init 1 :: ('k, 'v) LRU) k
   \<and> LRU_getitem (LRU_init 1 :: ('k, 'v) LRU) k = Inl KeyError"
proof -
  have "LRU_puts (LRU_init 1) kvs = Inr (LRU_init 1)"
    by (induction kvs) (auto simp: LRU_setitem_eq LRU_init_def Let_def)
  then show ?thesis
    by (simp add: LRU_insert_eq LRU_evict_def od_popitem_first_def LRU_init_def
        LRU_contains_def od_contains_def LRU_getitem_eq)
qed

section \<open>Properties of the Path Sharding Scheme\<close>

lemma split_sep_no_sep: "c \<notin> set s \<Longrightarrow> split_sep c s = [s]"
  by (induction s) auto

lemma Path_plain: "plain s \<Longrightarrow> Path s = \<lparr>p_root = '''', p_parts = [s]\<rparr>"
  by (cases s) (auto simp: plain_def Path_def path_root_def kept_part_def split_sep_no_sep)

lemma join_str_plain:
  "plain s \<Longrightarrow> join_str p s = \<lparr>p_root = p_root p, p_parts = p_parts p @ [s]\<rparr>"
  by (simp add: join_str_def joinpath_def Path_plain)

lemma foldl_join_plain:
  "(\<And>s. s \<in> set ss \<Longrightarrow> plain s) \<Longrightarrow>
   foldl join_str p ss = \<lparr>p_root = p_root p, p_parts = p_parts p @ ss\<rparr>"
  by (induction ss arbitrary: p) (auto simp: join_str_plain)

text \<open>\<open>range(i, stop, 2)\<close> counts \<open>i, i + 2, ...\<close> below \<open>stop\<close>.\<close>

lemma py_range_step2:
  "py_range i stop 2 = map (\<lambda>j. i + 2 * int j) [0..<nat ((stop - i + 1) div 2)]"
proof (induction i stop "2::int" rule: py_range.induct)
  case (1 i stop)
  show ?case
  proof (cases "i < stop")
    case False
    then show ?thesis by (subst py_range.simps) simp
  next
    case True
    let ?c = "nat ((stop - i + 1) div 2)"
    let ?c' = "nat ((stop - (i + 2) + 1) div 2)"
    have "(stop - (i + 2) + 1) div 2 = (stop - i + 1) div 2 - 1" by presburger
    moreover from True have "1 \<le> (stop - i + 1) div 2" by presburger
    ultimately have c: "?c = Suc ?c'" by simp
    have "[0..<Suc ?c'] = 0 # map Suc [0..<?c']"
      by (simp add: upt_conv_Cons map_Suc_upt del: upt_Suc)
    with c have "map (\<lambda>j. i + 2 * int j) [0..<?c] = i # map (\<lambda>j. (i + 2) + 2 * int j) [0..<?c']"
      by (simp add: comp_def del: upt_Suc)
    with True 1 show ?thesis by (subst py_range.simps) simp
  qed
qed

lemma filter_even_upt: "filter even [0..<n] = map (\<lambda>j. 2 * j) [0..<Suc n div 2]"
proof (induction n)
  case 0
  then show ?case by simp
next
  case (Suc n)
  show ?case
  proof (cases "even n")
    case True
    then obtain m where m: "n = 2 * m" by (auto elim: evenE)
    with Suc show ?thesis by simp
  next
    case False
    then obtain m where m: "n = 2 * m + 1" by (auto elim: oddE)
    with Suc show ?thesis by simp
  qed
qed

lemma str_nat_chars: "set (str_nat n) \<subseteq> set ''0123456789''"
proof (induction n rule: str_nat.induct)
  case (1 n)
  have d: "digit_char n \<in> set ''0123456789''"
    unfolding digit_char_def by (rule nth_mem) simp
  show ?case
  proof (cases "n < 10")
    case True
    with d show ?thesis by (subst str_nat.simps) simp
  next
    case False
    with d 1 show ?thesis by (subst str_nat.simps) simp
  qed
qed

lemma str_int_no_slash: "CHR ''/'' \<notin> set (str_int i)"
  using str_nat_chars[of "nat i"] str_nat_chars[of "nat (- i)"]
  by (auto simp: str_int_def)

lemma plain_level: "plain (''l'' @ str_int i)"
  using str_int_no_slash[of i] by (simp add: plain_def)

lemma intercalate_snoc:
  "intercalate sep (xs @ [d]) = concat (map (\<lambda>s. s @ sep) xs) @ d"
proof (induction xs)
  case Nil
  show ?case by simp
next
  case (Cons x xs)
  then show ?case by (cases xs) simp_all
qed

lemma py_slice_pair:
  assumes "2 * j + 2 \<le> length d"
  shows "py_slice d (2 * int j) (2 * int j + 2) = take 2 (drop (2 * j) d)"
proof -
  have "slice_bound (length d) (2 * int j) = 2 * j"
    using assms by (simp add: slice_bound_def min_def nat_mult_distrib)
  moreover have "slice_bound (length d) (2 * int j + 2) = 2 * j + 2"
    using assms by (simp add: slice_bound_def min_def nat_add_distrib nat_mult_distrib)
  ultimately show ?thesis by (simp add: py_slice_def)
qed

lemma plain_length2: "length s = 2 \<Longrightarrow> CHR ''/'' \<notin> set s \<Longrightarrow> plain s"
  by (auto simp: plain_def)

lemma plain_pair:
  assumes "plain d" and "2 * j + 2 \<le> length d"
  shows "plain (take 2 (drop (2 * j) d))"
proof -
  have l: "length (take 2 (drop (2 * j) d)) = 2" using assms(2) by simp
  have "set (take 2 (drop (2 * j) d)) \<subseteq> set d"
    by (meson set_take_subset set_drop_subset subset_trans)
  with assms(1) have "CHR ''/'' \<notin> set (take 2 (drop (2 * j) d))"
    by (auto simp: plain_def)
  with l show ?thesis by (rule plain_length2)
qed

lemma shard_bound:
  assumes "j < nat ((L - 1) div 2)" and "L \<le> int n"
  shows "2 * j + 2 \<le> n"
proof -
  from assms(1) have "int j < (L - 1) div 2" by linarith
  moreover have "2 * ((L - 1) div 2) \<le> L - 1" by presburger
  ultimately have "2 * int j + 2 \<le> L - 1" by linarith
  with assms(2) show ?thesis by linarith
qed

lemma shard_count: "Suc (nat (L - 2)) div 2 = nat ((L - 1) div 2)"
proof (cases "L \<le> 2")
  case True
  then have "(L - 1) div 2 \<le> 0" by presburger
  with True show ?thesis by simp
next
  case False
  define k where "k = nat (L - 2)"
  with False have L: "L = int k + 2" by simp
  have "(int k + 1) div 2 = int ((k + 1) div 2)" by (simp add: zdiv_int)
  then have "nat ((L - 1) div 2) = (k + 1) div 2" by (simp add: L)
  then show ?thesis by (simp add: k_def)
qed

lemma shard_segments_slices:
  "shard_segments L d =
     map (\<lambda>i. py_slice d i (i + 2)) (map (\<lambda>j. 2 * int j) [0..<nat ((L - 1) div 2)])"
  by (simp add: shard_segments_def filter_even_upt comp_def shard_count)

lemma shard_segments_eq:
  assumes "L \<le> int (length d)"
  shows "shard_segments L d = map (\<lambda>j. take 2 (drop (2 * j) d)) [0..<nat ((L - 1) div 2)]"
proof -
  have "2 * j + 2 \<le> length d" if "j < nat ((L - 1) div 2)" for j
    using that assms by (rule shard_bound)
  then show ?thesis by (simp add: shard_segments_slices py_slice_pair)
qed

lemma file_location_parts:
  assumes "plain a" and "plain d" and "L \<le> int (length d)"
  shows "file_location a L d =
           \<lparr>p_root = '''', p_parts = [a, ''l'' @ str_int L] @ shard_segments L d @ [d]\<rparr>"
proof -
  let ?c = "nat ((L - 1) div 2)"
  have r: "py_range 0 (L - 2) 2 = map (\<lambda>j. 2 * int j) [0..<?c]"
    by (simp add: py_range_step2)
  have b: "2 * j + 2 \<le> length d" if "j < ?c" for j
    using that assms(3) by (rule shard_bound)
  have pl: "plain s" if "s \<in> set (shard_segments L d)" for s
    using that b assms(2) by (auto simp: shard_segments_eq[OF assms(3)] plain_pair)
  let ?p0 = "\<lparr>p_root = '''', p_parts = [a, ''l'' @ str_int L]\<rparr>"
  have p0: "join_str (Path a) (''l'' @ str_int L) = ?p0"
    using assms(1) plain_level[of L] by (simp add: join_str_plain Path_plain)
  have "foldl (\<lambda>path i. join_str path (py_slice d i (i + 2))) ?p0 (py_range 0 (L - 2) 2)
        = foldl join_str ?p0 (shard_segments L d)"
    by (simp only: r shard_segments_slices foldl_map)
  also have "\<dots> = \<lparr>p_root = '''', p_parts = [a, ''l'' @ str_int L] @ shard_segments L d\<rparr>"
    using pl by (simp add: foldl_join_plain)
  finally have f: "foldl (\<lambda>path i. join_str path (py_slice d i (i + 2))) ?p0
      (py_range 0 (L - 2) 2)
      = \<lparr>p_root = '''', p_parts = [a, ''l'' @ str_int L] @ shard_segments L d\<rparr>" .
  show ?thesis
    unfolding file_location_def Let_def p0 f using assms(2) by (simp add: join_str_plain)
qed

text \<open>
  C5 does not hold as stated. It states: for every algorithm name, every length \<open>L\<close> and every
  digest of length at least \<open>L\<close>, the path is \<open><algorithm>/l<L>/\<close>, then the shard segments,
  then the digest as the file name. \<open>pathlib\<close> drops an empty component and a \<open>''.''\<close>
  component, and a component that starts with a slash replaces the path. For \<open>L = 0\<close> and
  the empty digest, which is the digest of every content when the hash length is 0,
  the path is \<open>sha256/l0\<close>: it ends with the directory of the level, and no file name
  follows. For \<open>L = 1\<close> and the digest \<open>.\<close> the path is \<open>sha256/l1\<close>; for \<open>L = 2\<close> and the
  digest \<open>/x\<close> it is the absolute path \<open>/x\<close>; for the empty algorithm name it is
  \<open>l5/ab/cd/abcde\<close>.
\<close>

theorem C5_empty_digest_has_no_file_name:
  "hash example_lib (example_hasher 0 100) ''a'' = Inr ''''
   \<and> 0 \<le> int (length '''')
   \<and> file_location ''sha256'' 0 '''' = \<lparr>p_root = '''', p_parts = [''sha256'', ''l0'']\<rparr>
   \<and> path_str (file_location ''sha256'' 0 '''') = ''sha256/l0''
   \<and> 1 \<le> int (length ''.'')
   \<and> file_location ''sha256'' 1 ''.'' = \<lparr>p_root = '''', p_parts = [''sha256'', ''l1'']\<rparr>
   \<and> 2 \<le> int (length ''/x'')
   \<and> file_location ''sha256'' 2 ''/x'' = \<lparr>p_root = ''/'', p_parts = [''x'']\<rparr>
   \<and> 5 \<le> int (length ''abcde'')
   \<and> path_str (file_location '''' 5 ''abcde'') = ''l5/ab/cd/abcde''"
  by (simp add: hash_def example_lib_def example_hasher_def sha256_hex_def file_location_def
      py_range.simps join_str_def joinpath_def Path_def path_root_def kept_part_def
      str_int_def str_nat.simps digit_char_def py_slice_def slice_bound_def path_str_def)

text \<open>
  C5, as amended: for an algorithm name and a digest that are path components (not empty,
  not \<open>''.''\<close>, no slash) and a digest of length at least \<open>L\<close>, \<open>file_location\<close> is the relative
  path \<open><algorithm>/l<L>/\<close>, then one segment \<open>digest[i:i+2]\<close> for each \<open>i\<close> in \<open>0, 2, 4, ...\<close>
  while \<open>i < L - 2\<close>, each of two characters, then the digest as the file name. For
  \<open>L \<le> 2\<close> there is no shard segment. For \<open>L = 5\<close> and the digest \<open>abcde\<close> the path is
  \<open><algorithm>/l5/ab/cd/abcde\<close>.
\<close>

theorem C5_file_location_shards:
  assumes "plain algorithm" and "plain digest" and "L \<le> int (length digest)"
  shows "file_location algorithm L digest =
           \<lparr>p_root = '''',
            p_parts = [algorithm, ''l'' @ str_int L] @ shard_segments L digest @ [digest]\<rparr>
     \<and> path_str (file_location algorithm L digest) =
           algorithm @ ''/l'' @ str_int L @ ''/''
             @ concat (map (\<lambda>s. s @ ''/'') (shard_segments L digest)) @ digest
     \<and> (\<forall>s \<in> set (shard_segments L digest). length s = 2)
     \<and> (L \<le> 2 \<longrightarrow> shard_segments L digest = [])
     \<and> path_str (file_location algorithm 5 ''abcde'') = algorithm @ ''/l5/ab/cd/abcde''"
proof -
  have parts: "file_location algorithm L digest =
      \<lparr>p_root = '''',
       p_parts = [algorithm, ''l'' @ str_int L] @ shard_segments L digest @ [digest]\<rparr>"
    using assms by (rule file_location_parts)
  have str: "path_str (file_location algorithm L digest) =
           algorithm @ ''/l'' @ str_int L @ ''/''
             @ concat (map (\<lambda>s. s @ ''/'') (shard_segments L digest)) @ digest"
    using intercalate_snoc[of "''/''" "shard_segments L digest" digest]
    by (cases "shard_segments L digest") (simp_all add: parts path_str_def)
  have len: "\<forall>s \<in> set (shard_segments L digest). length s = 2"
  proof
    fix s assume "s \<in> set (shard_segments L digest)"
    then obtain j where j: "j < nat ((L - 1) div 2)" and s: "s = take 2 (drop (2 * j) digest)"
      by (auto simp: shard_segments_eq[OF assms(3)])
    from j assms(3) have "2 * j + 2 \<le> length digest" by (rule shard_bound)
    with s show "length s = 2" by simp
  qed
  have none: "L \<le> 2 \<longrightarrow> shard_segments L digest = []" by (simp add: shard_segments_def)
  have "plain ''abcde''" by (simp add: plain_def)
  with assms(1) have "file_location algorithm 5 ''abcde'' =
      \<lparr>p_root = '''',
       p_parts = [algorithm, ''l'' @ str_int 5] @ shard_segments 5 ''abcde'' @ [''abcde'']\<rparr>"
    by (rule file_location_parts) simp
  moreover have "shard_segments 5 ''abcde'' = [''ab'', ''cd'']"
    by (simp add: shard_segments_eq upt_conv_Cons)
  moreover have "str_int 5 = ''5''" by (simp add: str_int_def digit_char_def str_nat.simps)
  ultimately have ex:
    "path_str (file_location algorithm 5 ''abcde'') = algorithm @ ''/l5/ab/cd/abcde''"
    by (simp add: path_str_def)
  from parts str len none ex show ?thesis by blast
qed

theorem C5_file_location_shards_witness:
  "plain ''sha256'' \<and> plain ''abcde'' \<and> 5 \<le> int (length ''abcde'')
   \<and> file_location ''sha256'' 5 ''abcde''
       = \<lparr>p_root = '''', p_parts = [''sha256'', ''l5'', ''ab'', ''cd'', ''abcde'']\<rparr>
   \<and> path_str (file_location ''sha256'' 5 ''abcde'') = ''sha256/l5/ab/cd/abcde''"
proof -
  have h1: "plain ''sha256''" and h2: "plain ''abcde''" by (simp_all add: plain_def)
  have h3: "5 \<le> int (length ''abcde'')" by simp
  have s: "shard_segments 5 ''abcde'' = [''ab'', ''cd'']"
    by (simp add: shard_segments_eq upt_conv_Cons)
  have l: "str_int 5 = ''5''" by (simp add: str_int_def digit_char_def str_nat.simps)
  from C5_file_location_shards[OF h1 h2 h3] h1 h2 h3 show ?thesis
    by (simp add: s l path_str_def)
qed

section \<open>Properties of the Content Store\<close>

text \<open>
  C7 does not hold as stated. It states: an algorithm name that the digest provider does not
  recognise makes the construction of the Content Store fail at startup. The
  constructor does not ask the provider: for the name \<open>nope\<close>, which \<open>hashlib\<close> does not
  support, it returns the store.
\<close>

theorem C7_constructor_accepts_unknown_algorithm:
  "hashlib_new example_lib ''nope'' = None
   \<and> ContentHasher_init ''nope'' 5 (Path ''goto_state'') 100
       = Inr \<lparr>hash_algorithm = ''nope'', hash_length = 5, state_dir = Path ''goto_state'',
              cache' = LRU_init 100\<rparr>"
  by (simp add: example_lib_def ContentHasher_init_def)

text \<open>
  C7, as amended: when the provider does not recognise the configured algorithm name,
  the construction of the Content Store still succeeds, and the failure (\<open>ValueError\<close>
  from \<open>hashlib.new\<close>) is raised per request: by every call of \<open>hash\<close>, and by every call
  of \<open>save\<close>, which leaves the cache and the file system as they were.
\<close>

theorem C7_unknown_algorithm_fails_per_request:
  assumes "hashlib_new lib algorithm = None"
  shows "\<exists>h. ContentHasher_init algorithm length' dir cache_size = Inr h
           \<and> hash lib h content = Inl ValueError
           \<and> save lib (h, fs) content = (Inl ValueError, (h, fs))"
  using assms by (simp add: ContentHasher_init_def hash_def save_def)

theorem C7_unknown_algorithm_fails_per_request_witness:
  "hashlib_new example_lib ''nope'' = None
   \<and> (\<exists>h. ContentHasher_init ''nope'' 5 (Path ''goto_state'') 100 = Inr h
           \<and> hash example_lib h ''a'' = Inl ValueError
           \<and> save example_lib (h, Map.empty) ''a'' = (Inl ValueError, (h, Map.empty)))"
proof -
  have h: "hashlib_new example_lib ''nope'' = None" by (simp add: example_lib_def)
  from C7_unknown_algorithm_fails_per_request[OF h] h show ?thesis by simp
qed

section \<open>Properties of the file system and the Content Store's invariant\<close>

lemma fs_lookup_top_of [simp]: "fs_lookup fs (top_of p) = Some Dir"
  by (simp add: fs_lookup_def top_of_def)

lemma resolve_step:
  assumes "resolve fs cur (s # ss) = Inr q"
  obtains n where "fs_lookup fs cur = Some Dir" and "lookup_name cur s = Inr n"
    and "resolve fs n ss = Inr q"
  using assms by (auto split: option.splits node.splits sum.splits)

lemma lookup_name_result:
  assumes "lookup_name cur s = Inr n"
  shows "n = (if s = ''..'' then parent cur else child cur s)"
  using assms by (auto simp: lookup_name_def split: if_splits)

lemma resolve_mono:
  assumes "\<And>x. fs_lookup fs x = Some Dir \<Longrightarrow> fs_lookup fs' x = Some Dir"
  shows "resolve fs cur ss = Inr q \<Longrightarrow> resolve fs' cur ss = Inr q"
proof (induction ss arbitrary: cur)
  case Nil
  then show ?case by simp
next
  case (Cons s ss)
  from Cons.prems obtain n where d: "fs_lookup fs cur = Some Dir"
    and n: "lookup_name cur s = Inr n" and r: "resolve fs n ss = Inr q"
    by (rule resolve_step)
  from d assms have d': "fs_lookup fs' cur = Some Dir" by blast
  from r have "resolve fs' n ss = Inr q" by (rule Cons.IH)
  with d' n show ?case by simp
qed

lemma locate_resolve:
  assumes "locate fs p = Inr q"
  shows "resolve fs (top_of p) (p_parts p) = Inr q"
  using assms by (auto simp: locate_def split: if_splits)

lemma locate_mono:
  assumes "\<And>x. fs_lookup fs x = Some Dir \<Longrightarrow> fs_lookup fs' x = Some Dir"
    and "locate fs p = Inr q"
  shows "locate fs' p = Inr q"
proof -
  from assms(2) have "resolve fs (top_of p) (p_parts p) = Inr q" by (rule locate_resolve)
  then have "resolve fs' (top_of p) (p_parts p) = Inr q"
    by (rule resolve_mono[rotated]) (rule assms(1))
  with assms(2) show ?thesis by (auto simp: locate_def split: if_splits)
qed

lemma write_bytes_result:
  assumes "write_bytes fs p data = Inr fs'"
  obtains q where "locate fs p = Inr q" and "fs_lookup fs q \<noteq> Some Dir"
    and "fs' = fs(q \<mapsto> File data)"
  using assms by (auto simp: write_bytes_def split: sum.splits option.splits node.splits)

lemma read_after_write:
  assumes "write_bytes fs p data = Inr fs'"
  shows "read_bytes fs' p = Inr data"
proof -
  from assms obtain q where q: "locate fs p = Inr q" and nd: "fs_lookup fs q \<noteq> Some Dir"
    and fs': "fs' = fs(q \<mapsto> File data)"
    by (rule write_bytes_result)
  from nd have ne: "p_parts q \<noteq> []" by (auto simp: fs_lookup_def)
  have "fs_lookup fs' x = Some Dir" if "fs_lookup fs x = Some Dir" for x
    using that nd by (auto simp: fs' fs_lookup_def)
  with q have "locate fs' p = Inr q"
    by (rule locate_mono[rotated])
  moreover from ne have "fs_lookup fs' q = Some (File data)"
    by (simp add: fs' fs_lookup_def)
  ultimately show ?thesis by (simp add: read_bytes_def)
qed

lemma LRU_setitem_key:
  assumes "LRU_setitem c k v = Inr c1"
  shows "map_of (cache c1) k = Some v \<or> map_of (cache c1) k = None"
proof -
  let ?xs = "filter (\<lambda>x. fst x \<noteq> k) (cache c)"
  have c1: "cache c1 = (if max_size c \<le> int (length (?xs @ [(k, v)])) then tl (?xs @ [(k, v)])
      else ?xs @ [(k, v)])"
    using assms by (auto simp: LRU_setitem_eq Let_def)
  have a: "map_of (?xs @ [(k, v)]) k = Some v" by (rule map_of_moved)
  have "map_of (tl (?xs @ [(k, v)])) k = Some v \<or> map_of (tl (?xs @ [(k, v)])) k = None"
  proof (cases ?xs)
    case Nil
    then show ?thesis by simp
  next
    case (Cons y ys)
    have "k \<notin> fst ` set ?xs" by (rule key_notin_filter)
    with Cons have "k \<notin> fst ` set ys" by simp
    then have "map_of ys k = None" by (simp add: map_of_eq_None_iff)
    with Cons show ?thesis by (simp add: map_add_def)
  qed
  with a c1 show ?thesis by (auto simp del: map_of_append)
qed

lemma save_result:
  assumes "save lib (h, fs) content = (Inr d, w')"
  obtains c fs1 fs2 where "hash lib h content = Inr d"
    and "LRU_setitem (cache' h) d content = Inr c"
    and "mkdir_parents fs (parent (file_path_of h d)) = (None, fs1)"
    and "write_bytes fs1 (file_path_of h d) content = Inr fs2"
    and "w' = (h\<lparr>cache' := c\<rparr>, fs2)"
  using assms
  by (auto simp: save_def Let_def split: sum.splits option.splits prod.splits)

lemma file_path_of_cache [simp]: "file_path_of (h\<lparr>cache' := c\<rparr>) k = file_path_of h k"
  by (simp add: file_path_of_def)

lemma resolve_append:
  "resolve fs cur (ss @ ts) =
     (case resolve fs cur ss of Inl e \<Rightarrow> Inl e | Inr q \<Rightarrow> resolve fs q ts)"
  by (induction ss arbitrary: cur) (auto split: option.splits node.splits sum.splits)

lemma resolve_last:
  assumes "resolve fs cur (ss @ [s]) = Inr q"
  obtains c where "fs_lookup fs c = Some Dir"
    and "q = (if s = ''..'' then parent c else child c s)"
proof -
  from assms obtain c where c: "resolve fs cur ss = Inr c" and q: "resolve fs c [s] = Inr q"
    by (auto simp: resolve_append split: sum.splits)
  from q obtain n where d: "fs_lookup fs c = Some Dir" and n: "lookup_name c s = Inr n"
    and "resolve fs n [] = Inr q"
    by (rule resolve_step)
  then have "q = n" by simp
  with n have "q = (if s = ''..'' then parent c else child c s)"
    by (simp add: lookup_name_result)
  with d show ?thesis by (rule that)
qed

lemma parent_child [simp]: "parent (child c s) = c"
  by (simp add: parent_def child_def)

lemma parts_child [simp]: "p_parts (child c s) = p_parts c @ [s]"
  by (simp add: child_def)

lemma in_dir_parent:
  assumes "fs_wf fs" and "in_dir fs c"
  shows "in_dir fs (parent c)"
proof (cases "p_parts c = []")
  case True
  then show ?thesis by (simp add: in_dir_def parent_def)
next
  case False
  with assms(2) have d: "fs_lookup fs (parent c) = Some Dir" by (simp add: in_dir_def)
  show ?thesis
  proof (cases "p_parts (parent c) = []")
    case True
    then show ?thesis by (simp add: in_dir_def)
  next
    case ne: False
    with d have "fs (parent c) \<noteq> None" by (simp add: fs_lookup_def)
    with assms(1) ne show ?thesis by (simp add: fs_wf_def in_dir_def)
  qed
qed

lemma resolve_in_dir:
  assumes "fs_wf fs"
  shows "resolve fs cur ss = Inr q \<Longrightarrow> in_dir fs cur \<Longrightarrow> in_dir fs q"
proof (induction ss arbitrary: cur)
  case Nil
  then show ?case by simp
next
  case (Cons s ss)
  from Cons.prems(1) obtain n where d: "fs_lookup fs cur = Some Dir"
    and n: "lookup_name cur s = Inr n" and r: "resolve fs n ss = Inr q"
    by (rule resolve_step)
  from n have "n = (if s = ''..'' then parent cur else child cur s)"
    by (rule lookup_name_result)
  then have "in_dir fs n"
    using d in_dir_parent[OF assms Cons.prems(2)] by (simp add: in_dir_def)
  with r show ?case by (rule Cons.IH)
qed

lemma locate_in_dir:
  assumes "fs_wf fs" and "locate fs p = Inr q"
  shows "in_dir fs q"
proof -
  have "in_dir fs (top_of p)" by (simp add: in_dir_def top_of_def)
  with locate_resolve[OF assms(2)] show ?thesis
    by (rule resolve_in_dir[OF assms(1)])
qed

lemma os_mkdir_result:
  assumes "os_mkdir fs p = Inr fs'"
  obtains q where "locate fs p = Inr q" and "fs_lookup fs q = None" and "fs' = fs(q \<mapsto> Dir)"
  using assms by (auto simp: os_mkdir_def split: sum.splits option.splits)

lemma adds_dirs_refl: "adds_dirs fs fs"
  by (simp add: adds_dirs_def)

lemma adds_dirs_trans: "adds_dirs a b \<Longrightarrow> adds_dirs b c \<Longrightarrow> adds_dirs a c"
  unfolding adds_dirs_def by (metis option.distinct(1))

lemma os_mkdir_adds:
  assumes "os_mkdir fs p = Inr fs'"
  shows "adds_dirs fs fs'"
proof -
  from assms obtain q where "fs_lookup fs q = None" and fs': "fs' = fs(q \<mapsto> Dir)"
    by (rule os_mkdir_result)
  then have "fs q = None" by (auto simp: fs_lookup_def split: if_splits)
  with fs' show ?thesis by (simp add: adds_dirs_def)
qed

lemma os_mkdir_wf:
  assumes "os_mkdir fs p = Inr fs'" and "fs_wf fs"
  shows "fs_wf fs'"
proof -
  from assms(1) obtain q where q: "locate fs p = Inr q" and n: "fs_lookup fs q = None"
    and fs': "fs' = fs(q \<mapsto> Dir)"
    by (rule os_mkdir_result)
  from assms(2) q have iq: "in_dir fs q" by (rule locate_in_dir)
  from n have ne: "p_parts q \<noteq> []" by (auto simp: fs_lookup_def split: if_splits)
  have keep: "fs_lookup fs' y = Some Dir" if "fs_lookup fs y = Some Dir" for y
    using that n by (auto simp: fs' fs_lookup_def)
  show ?thesis
    unfolding fs_wf_def
  proof (intro allI impI)
    fix x assume x: "fs' x \<noteq> None" and px: "p_parts x \<noteq> []"
    show "fs_lookup fs' (parent x) = Some Dir"
    proof (cases "x = q")
      case True
      with iq ne have "fs_lookup fs (parent q) = Some Dir" by (simp add: in_dir_def)
      with True show ?thesis by (simp add: keep)
    next
      case False
      with x have "fs x \<noteq> None" by (simp add: fs')
      with assms(2) px have "fs_lookup fs (parent x) = Some Dir" by (simp add: fs_wf_def)
      then show ?thesis by (rule keep)
    qed
  qed
qed

lemma mkdir_exist_ok_props:
  assumes "mkdir_exist_ok fs p = (r, fs')"
  shows "adds_dirs fs fs' \<and> (fs_wf fs \<longrightarrow> fs_wf fs')"
proof (cases "os_mkdir fs p")
  case (Inr fs1)
  with assms have "fs' = fs1" by (simp add: mkdir_exist_ok_def)
  with Inr show ?thesis using os_mkdir_adds os_mkdir_wf by blast
next
  case (Inl e)
  with assms have "fs' = fs" by (auto simp: mkdir_exist_ok_def split: if_splits)
  then show ?thesis by (simp add: adds_dirs_refl)
qed

lemma mkdir_parents_props:
  "mkdir_parents fs p = (r, fs') \<Longrightarrow> adds_dirs fs fs' \<and> (fs_wf fs \<longrightarrow> fs_wf fs')"
proof (induction fs p arbitrary: r fs' rule: mkdir_parents.induct)
  case (1 fs p)
  show ?case
  proof (cases "os_mkdir fs p")
    case (Inr fs1)
    with "1.prems" have "fs' = fs1" by (simp add: mkdir_parents.simps[of fs p])
    with Inr show ?thesis using os_mkdir_adds os_mkdir_wf by blast
  next
    case (Inl e)
    show ?thesis
    proof (cases "e = FileNotFoundError \<and> parent p \<noteq> p")
      case False
      with Inl "1.prems" have "fs' = fs"
        by (auto simp: mkdir_parents.simps[of fs p] split: if_splits)
      then show ?thesis by (simp add: adds_dirs_refl)
    next
      case True
      obtain r1 fs1 where m: "mkdir_parents fs (parent p) = (r1, fs1)"
        by (cases "mkdir_parents fs (parent p)")
      from Inl True m have ih: "adds_dirs fs fs1 \<and> (fs_wf fs \<longrightarrow> fs_wf fs1)"
        by (intro "1.IH") auto
      show ?thesis
      proof (cases r1)
        case (Some e1)
        with Inl True m "1.prems" have "fs' = fs1"
          by (simp add: mkdir_parents.simps[of fs p])
        with ih show ?thesis by simp
      next
        case None
        with Inl True m "1.prems" have "mkdir_exist_ok fs1 p = (r, fs')"
          by (simp add: mkdir_parents.simps[of fs p])
        then have "adds_dirs fs1 fs' \<and> (fs_wf fs1 \<longrightarrow> fs_wf fs')"
          by (rule mkdir_exist_ok_props)
        with ih show ?thesis using adds_dirs_trans by blast
      qed
    qed
  qed
qed

lemma adds_dirs_lookup:
  "adds_dirs fs fs' \<Longrightarrow> fs_lookup fs x = Some n \<Longrightarrow> fs_lookup fs' x = Some n"
  unfolding adds_dirs_def fs_lookup_def by (metis option.distinct(1))

lemma adds_dirs_read:
  assumes "adds_dirs fs fs'" and "read_bytes fs p = Inr v"
  shows "read_bytes fs' p = Inr v"
proof -
  from assms(2) obtain q where q: "locate fs p = Inr q" and f: "fs_lookup fs q = Some (File v)"
    by (auto simp: read_bytes_def split: sum.splits option.splits node.splits)
  have "fs_lookup fs' x = Some Dir" if "fs_lookup fs x = Some Dir" for x
    using assms(1) that by (rule adds_dirs_lookup)
  with q have "locate fs' p = Inr q"
    by (rule locate_mono[rotated])
  moreover from assms(1) f have "fs_lookup fs' q = Some (File v)" by (rule adds_dirs_lookup)
  ultimately show ?thesis by (simp add: read_bytes_def)
qed

lemma adds_dirs_files:
  assumes "adds_dirs fs fs'" and "files_named_hex fs"
  shows "files_named_hex fs'"
  unfolding files_named_hex_def
proof (intro allI impI)
  fix q b assume "fs' q = Some (File b)"
  with assms(1) have "fs q = Some (File b)"
    unfolding adds_dirs_def by (metis node.distinct(1) option.inject)
  with assms(2) show "p_parts q \<noteq> [] \<and> is_hex (last (p_parts q))"
    by (simp add: files_named_hex_def)
qed

lemma write_bytes_wf:
  assumes "write_bytes fs p data = Inr fs'" and "fs_wf fs"
  shows "fs_wf fs'"
proof -
  from assms(1) obtain q where q: "locate fs p = Inr q" and nd: "fs_lookup fs q \<noteq> Some Dir"
    and fs': "fs' = fs(q \<mapsto> File data)"
    by (rule write_bytes_result)
  from assms(2) q have iq: "in_dir fs q" by (rule locate_in_dir)
  from nd have ne: "p_parts q \<noteq> []" by (auto simp: fs_lookup_def)
  have keep: "fs_lookup fs' y = Some Dir" if "fs_lookup fs y = Some Dir" for y
    using that nd by (auto simp: fs' fs_lookup_def)
  show ?thesis
    unfolding fs_wf_def
  proof (intro allI impI)
    fix x assume x: "fs' x \<noteq> None" and px: "p_parts x \<noteq> []"
    show "fs_lookup fs' (parent x) = Some Dir"
    proof (cases "x = q")
      case True
      with iq ne have "fs_lookup fs (parent q) = Some Dir" by (simp add: in_dir_def)
      with True show ?thesis by (simp add: keep)
    next
      case False
      with x have "fs x \<noteq> None" by (simp add: fs')
      with assms(2) px have "fs_lookup fs (parent x) = Some Dir" by (simp add: fs_wf_def)
      then show ?thesis by (rule keep)
    qed
  qed
qed

text \<open>The location of a path whose last component is a name ends with that name.\<close>

lemma locate_last:
  assumes "locate fs p = Inr q" and "p_parts p = ss @ [s]" and "s \<noteq> ''..''"
  shows "p_parts q \<noteq> [] \<and> last (p_parts q) = s"
proof -
  from locate_resolve[OF assms(1)] assms(2) have "resolve fs (top_of p) (ss @ [s]) = Inr q"
    by simp
  then obtain c where "q = (if s = ''..'' then parent c else child c s)"
    by (rule resolve_last)
  with assms(3) show ?thesis by simp
qed

lemma locate_dotdot:
  assumes "locate fs p = Inr q" and "p_parts p = ss @ [''..'']" and "fs_wf fs"
  shows "fs_lookup fs q = Some Dir"
proof -
  from locate_resolve[OF assms(1)] assms(2)
  have "resolve fs (top_of p) (ss @ [''..'']) = Inr q"
    by simp
  then obtain c where c: "fs_lookup fs c = Some Dir" and q: "q = parent c"
    by (rule resolve_last) simp
  show ?thesis
  proof (cases "p_parts c = []")
    case True
    with q show ?thesis by (simp add: parent_def fs_lookup_def)
  next
    case False
    with c have "fs c \<noteq> None" by (simp add: fs_lookup_def)
    with assms(3) False q show ?thesis by (simp add: fs_wf_def)
  qed
qed

lemma write_bytes_files:
  assumes "write_bytes fs p data = Inr fs'" and "files_named_hex fs"
    and "p_parts p = ss @ [s]" and "is_hex s"
  shows "files_named_hex fs'"
proof -
  from assms(1) obtain q where q: "locate fs p = Inr q" and fs': "fs' = fs(q \<mapsto> File data)"
    by (rule write_bytes_result)
  from assms(4) have "s \<noteq> ''..''" by (auto simp: is_hex_def hexdigits_def)
  with q assms(3) have "p_parts q \<noteq> [] \<and> last (p_parts q) = s" by (rule locate_last)
  with assms(2,4) show ?thesis by (auto simp: files_named_hex_def fs')
qed

lemma Path_no_slash:
  "CHR ''/'' \<notin> set s \<Longrightarrow>
   Path s = \<lparr>p_root = '''', p_parts = (if kept_part s then [s] else [])\<rparr>"
  by (cases s) (auto simp: Path_def path_root_def split_sep_no_sep)

lemma join_str_no_slash:
  "CHR ''/'' \<notin> set s \<Longrightarrow>
   join_str p s = \<lparr>p_root = p_root p, p_parts = p_parts p @ (if kept_part s then [s] else [])\<rparr>"
  by (simp add: join_str_def joinpath_def Path_no_slash)

lemma foldl_join_no_slash:
  "(\<And>i. i \<in> set xs \<Longrightarrow> CHR ''/'' \<notin> set (f i)) \<Longrightarrow>
   foldl (\<lambda>p i. join_str p (f i)) p0 xs =
     \<lparr>p_root = p_root p0, p_parts = p_parts p0 @ filter kept_part (map f xs)\<rparr>"
proof (induction xs arbitrary: p0)
  case Nil
  show ?case by simp
next
  case (Cons x xs)
  then show ?case by (simp add: join_str_no_slash)
qed

lemma set_py_slice: "set (py_slice s i j) \<subseteq> set s"
  unfolding py_slice_def Let_def by (meson set_take_subset set_drop_subset subset_trans)

lemma file_location_no_slash:
  assumes "CHR ''/'' \<notin> set k"
  shows "file_location a L k =
     \<lparr>p_root = p_root (Path a),
      p_parts = p_parts (Path a) @ [''l'' @ str_int L]
        @ filter kept_part (map (\<lambda>i. py_slice k i (i + 2)) (py_range 0 (L - 2) 2))
        @ (if kept_part k then [k] else [])\<rparr>"
proof -
  have p0: "join_str (Path a) (''l'' @ str_int L) =
      \<lparr>p_root = p_root (Path a), p_parts = p_parts (Path a) @ [''l'' @ str_int L]\<rparr>"
    using plain_level[of L] by (rule join_str_plain)
  have "CHR ''/'' \<notin> set (py_slice k i (i + 2))" for i
    using assms set_py_slice[of k i "i + 2"] by blast
  then have f: "foldl (\<lambda>p i. join_str p (py_slice k i (i + 2)))
        \<lparr>p_root = p_root (Path a), p_parts = p_parts (Path a) @ [''l'' @ str_int L]\<rparr>
        (py_range 0 (L - 2) 2) =
      \<lparr>p_root = p_root (Path a),
       p_parts = (p_parts (Path a) @ [''l'' @ str_int L])
         @ filter kept_part (map (\<lambda>i. py_slice k i (i + 2)) (py_range 0 (L - 2) 2))\<rparr>"
    by (subst foldl_join_no_slash) simp_all
  show ?thesis
    unfolding file_location_def Let_def p0 f using assms by (simp add: join_str_no_slash)
qed

lemma file_path_parts:
  assumes "CHR ''/'' \<notin> set k"
  obtains pre where "p_parts (file_path_of h k) =
     pre @ [''l'' @ str_int (hash_length h)]
       @ filter kept_part
           (map (\<lambda>i. py_slice k i (i + 2)) (py_range 0 (hash_length h - 2) 2))
       @ (if kept_part k then [k] else [])"
proof (cases "p_root (Path (hash_algorithm h)) = ''''")
  case True
  show ?thesis
    by (rule that[of "p_parts (state_dir h) @ p_parts (Path (hash_algorithm h))"])
       (simp add: file_path_of_def joinpath_def file_location_no_slash[OF assms] True)
next
  case False
  show ?thesis
    by (rule that[of "p_parts (Path (hash_algorithm h))"])
       (simp add: file_path_of_def joinpath_def file_location_no_slash[OF assms] False)
qed

lemma unkept_slice: "\<not> kept_part k \<Longrightarrow> \<not> kept_part (py_slice k i j)"
proof -
  assume "\<not> kept_part k"
  then consider "k = []" | "k = ''.''" by (auto simp: kept_part_def)
  then show ?thesis
  proof cases
    case 1
    then show ?thesis by (simp add: kept_part_def py_slice_def Let_def)
  next
    case 2
    have tk: "take n (drop m [c]) = [] \<or> take n (drop m [c]) = [c]" for n m and c :: char
      by (cases n; cases m) simp_all
    have "py_slice k i j = [] \<or> py_slice k i j = ''.''"
      unfolding 2 py_slice_def Let_def by (rule tk)
    then show ?thesis by (auto simp: kept_part_def)
  qed
qed

lemma is_hex_name: "is_hex k \<Longrightarrow> kept_part k \<and> k \<noteq> ''..'' \<and> CHR ''/'' \<notin> set k"
  by (auto simp: is_hex_def hexdigits_def kept_part_def)

lemma level_not_hex: "\<not> is_hex (''l'' @ str_int L)"
  by (simp add: is_hex_def hexdigits_def)

text \<open>
  In a file system of the store, a path built from an identifier without a slash can be
  read only when the identifier is a hexadecimal digest.
\<close>

lemma readable_key_hex:
  assumes "CHR ''/'' \<notin> set k" and "files_named_hex fs" and "fs_wf fs"
    and "read_bytes fs (file_path_of h k) = Inr v"
  shows "is_hex k"
proof -
  let ?p = "file_path_of h k"
  from assms(4) obtain q where q: "locate fs ?p = Inr q" and f: "fs_lookup fs q = Some (File v)"
    by (auto simp: read_bytes_def split: sum.splits option.splits node.splits)
  from f have fq: "fs q = Some (File v)" by (auto simp: fs_lookup_def split: if_splits)
  with assms(2) have hq: "p_parts q \<noteq> [] \<and> is_hex (last (p_parts q))"
    by (simp add: files_named_hex_def)
  from assms(1) obtain pre where parts: "p_parts ?p =
     pre @ [''l'' @ str_int (hash_length h)]
       @ filter kept_part
           (map (\<lambda>i. py_slice k i (i + 2)) (py_range 0 (hash_length h - 2) 2))
       @ (if kept_part k then [k] else [])"
    by (rule file_path_parts)
  show ?thesis
  proof (cases "kept_part k")
    case True
    with parts obtain ss where ss: "p_parts ?p = ss @ [k]" by simp
    show ?thesis
    proof (cases "k = ''..''")
      case True
      with q ss assms(3) have "fs_lookup fs q = Some Dir" by (simp add: locate_dotdot)
      with f show ?thesis by simp
    next
      case False
      with q ss have "last (p_parts q) = k" by (simp add: locate_last)
      with hq show ?thesis by simp
    qed
  next
    case False
    then have "filter kept_part
        (map (\<lambda>i. py_slice k i (i + 2)) (py_range 0 (hash_length h - 2) 2)) = []"
      by (simp add: filter_empty_conv unkept_slice)
    with parts False have "p_parts ?p = pre @ [''l'' @ str_int (hash_length h)]" by simp
    with q have "last (p_parts q) = ''l'' @ str_int (hash_length h)"
      by (simp add: locate_last)
    with hq level_not_hex[of "hash_length h"] show ?thesis by simp
  qed
qed

lemma split_sep_parts: "split_sep c s \<noteq> [] \<and> (\<forall>x \<in> set (split_sep c s). c \<notin> set x)"
  by (induction s) (auto split: list.splits)

lemma content_id_no_slash: "CHR ''/'' \<notin> set (content_id_of s)"
  using split_sep_parts[of "CHR ''/''" s] last_in_set[of "split_sep CHR ''/'' s"]
  by (auto simp: content_id_of_def)

lemma hash_is_hex:
  assumes "hex_provider lib (hash_algorithm h)" and "1 \<le> hash_length h"
    and "hash lib h content = Inr d"
  shows "is_hex d"
proof -
  from assms(1) obtain H where H: "hashlib_new lib (hash_algorithm h) = Some H"
    and all: "\<forall>content. case H content of None \<Rightarrow> False | Some digest \<Rightarrow> is_hex digest"
    by (auto simp: hex_provider_def split: option.splits)
  from all obtain x where x: "H content = Some x" and hex: "is_hex x"
    by (cases "H content") (auto dest: spec[of _ content])
  from assms(3) H x have d: "d = py_slice x 0 (hash_length h)" by (simp add: hash_def)
  from assms(2) have "slice_bound (length x) (hash_length h)
      = min (length x) (nat (hash_length h))"
    by (simp add: slice_bound_def)
  then have d': "d = take (min (length x) (nat (hash_length h))) x"
    by (simp add: d py_slice_def slice_bound_def)
  from hex have "0 < length x" by (simp add: is_hex_def)
  moreover from assms(2) have "0 < nat (hash_length h)" by simp
  ultimately have "d \<noteq> []" by (simp add: d')
  moreover have "set d \<subseteq> set x" unfolding d' by (rule set_take_subset)
  ultimately show ?thesis using hex unfolding is_hex_def by (meson subset_trans)
qed

lemma setitem_entries:
  assumes "LRU_setitem c k v = Inr c1"
  shows "set (cache c1) \<subseteq> insert (k, v) {x \<in> set (cache c). fst x \<noteq> k}"
proof -
  let ?od = "filter (\<lambda>x. fst x \<noteq> k) (cache c) @ [(k, v)]"
  from assms have "cache c1 = ?od \<or> cache c1 = tl ?od"
    by (auto simp: LRU_setitem_eq Let_def)
  moreover have "set (tl ?od) \<subseteq> set ?od" by (rule list.set_sel(2)[THEN subsetI]) simp
  ultimately show ?thesis by auto
qed

lemma getitem_entries:
  assumes "LRU_getitem c k = Inr (v, c1)"
  shows "set (cache c1) \<subseteq> set (cache c)"
proof -
  from assms have m: "map_of (cache c) k = Some v"
    and c1: "cache c1 = filter (\<lambda>x. fst x \<noteq> k) (cache c) @ [(k, v)]"
    by (auto simp: LRU_getitem_eq split: option.splits)
  from m have "(k, v) \<in> set (cache c)" by (rule map_of_SomeD)
  with c1 show ?thesis by auto
qed

lemma read_after_other_write:
  assumes "write_bytes fs p data = Inr fs'" and "read_bytes fs p' = Inr v"
    and "p_parts p = ss @ [s]" and "p_parts p' = ss' @ [s']"
    and "s \<noteq> ''..''" and "s' \<noteq> ''..''" and "s \<noteq> s'"
  shows "read_bytes fs' p' = Inr v"
proof -
  from assms(1) obtain q where q: "locate fs p = Inr q" and nd: "fs_lookup fs q \<noteq> Some Dir"
    and fs': "fs' = fs(q \<mapsto> File data)"
    by (rule write_bytes_result)
  from assms(2) obtain q' where q': "locate fs p' = Inr q'"
    and f: "fs_lookup fs q' = Some (File v)"
    by (auto simp: read_bytes_def split: sum.splits option.splits node.splits)
  from q assms(3,5) have "last (p_parts q) = s" by (simp add: locate_last)
  moreover from q' assms(4,6) have "last (p_parts q') = s'" by (simp add: locate_last)
  ultimately have ne: "q' \<noteq> q" using assms(7) by auto
  have "fs_lookup fs' x = Some Dir" if "fs_lookup fs x = Some Dir" for x
    using that nd by (auto simp: fs' fs_lookup_def)
  with q' have "locate fs' p' = Inr q'"
    by (rule locate_mono[rotated])
  moreover from f ne have "fs_lookup fs' q' = Some (File v)"
    by (auto simp: fs' fs_lookup_def split: if_splits)
  ultimately show ?thesis by (simp add: read_bytes_def)
qed

lemma hex_path_last:
  assumes "is_hex k"
  obtains ss where "p_parts (file_path_of h k) = ss @ [k]"
proof -
  from assms have k: "kept_part k" and "CHR ''/'' \<notin> set k"
    using is_hex_name by blast+
  then obtain pre where "p_parts (file_path_of h k) =
     pre @ [''l'' @ str_int (hash_length h)]
       @ filter kept_part
           (map (\<lambda>i. py_slice k i (i + 2)) (py_range 0 (hash_length h - 2) 2))
       @ (if kept_part k then [k] else [])"
    using file_path_parts by blast
  with k show ?thesis by (intro that) simp
qed

lemma file_path_of_same_config:
  "same_config h h0 \<Longrightarrow> file_path_of h k = file_path_of h0 k"
  by (simp add: same_config_def file_path_of_def)

lemma hex_provider_digests:
  "hex_provider lib (hash_algorithm h) \<Longrightarrow> 1 \<le> hash_length h \<Longrightarrow> hex_digests lib h"
  unfolding hex_digests_def using hash_is_hex by blast

lemma hash_same_config: "same_config h h0 \<Longrightarrow> hash lib h content = hash lib h0 content"
  by (auto simp: same_config_def hash_def split: option.splits)

lemma store_inv_save:
  assumes "store_inv h0 w" and "hex_digests lib h0" and "save lib w content = (Inr d, w')"
  shows "store_inv h0 w'"
proof -
  obtain h fs where w: "w = (h, fs)" by (cases w)
  from assms(1) have cfg: "same_config h h0" and fh: "files_named_hex fs" and wf: "fs_wf fs"
    and ent: "\<And>k v. (k, v) \<in> set (cache (cache' h)) \<Longrightarrow>
        is_hex k \<and> read_bytes fs (file_path_of h k) = Inr v"
    by (auto simp: store_inv_def w)
  from assms(3)[unfolded w] obtain c fs1 fs2
    where hs: "hash lib h content = Inr d"
      and set: "LRU_setitem (cache' h) d content = Inr c"
      and mk: "mkdir_parents fs (parent (file_path_of h d)) = (None, fs1)"
      and wr: "write_bytes fs1 (file_path_of h d) content = Inr fs2"
      and w': "w' = (h\<lparr>cache' := c\<rparr>, fs2)"
    by (rule save_result)
  from cfg hs have "hash lib h0 content = Inr d" by (simp add: hash_same_config)
  with assms(2) have hd: "is_hex d" by (simp add: hex_digests_def)
  then obtain ss where pd: "p_parts (file_path_of h d) = ss @ [d]" by (rule hex_path_last)
  from hd have dd: "d \<noteq> ''..''" using is_hex_name by blast
  from mk have ad: "adds_dirs fs fs1" and wf1: "fs_wf fs1"
    using mkdir_parents_props wf by blast+
  from ad fh have fh1: "files_named_hex fs1" by (rule adds_dirs_files)
  from wr wf1 have wf2: "fs_wf fs2" by (rule write_bytes_wf)
  from wr fh1 pd hd have fh2: "files_named_hex fs2" by (rule write_bytes_files)
  have "is_hex k \<and> read_bytes fs2 (file_path_of h k) = Inr v"
    if kv: "(k, v) \<in> set (cache c)" for k v
  proof (cases "(k, v) = (d, content)")
    case True
    with hd read_after_write[OF wr] show ?thesis by simp
  next
    case False
    with kv setitem_entries[OF set] have old: "(k, v) \<in> set (cache (cache' h))"
      and kd: "k \<noteq> d" by auto
    from ent[OF old] have hk: "is_hex k" and rd: "read_bytes fs (file_path_of h k) = Inr v"
      by simp_all
    from ad rd have rd1: "read_bytes fs1 (file_path_of h k) = Inr v" by (rule adds_dirs_read)
    from hk obtain ss' where pk: "p_parts (file_path_of h k) = ss' @ [k]"
      by (rule hex_path_last)
    from hk have "k \<noteq> ''..''" using is_hex_name by blast
    with wr rd1 pd pk dd kd have "read_bytes fs2 (file_path_of h k) = Inr v"
      by (intro read_after_other_write[OF wr rd1 pd pk]) auto
    with hk show ?thesis by simp
  qed
  with cfg fh2 wf2 show ?thesis
    by (auto simp: store_inv_def w' same_config_def)
qed

lemma store_inv_load:
  assumes "store_inv h0 w" and "load w k = (r, w')" and "CHR ''/'' \<notin> set k"
  shows "store_inv h0 w'"
proof -
  obtain h fs where w: "w = (h, fs)" by (cases w)
  from assms(1) have cfg: "same_config h h0" and fh: "files_named_hex fs" and wf: "fs_wf fs"
    and ent: "\<And>k v. (k, v) \<in> set (cache (cache' h)) \<Longrightarrow>
        is_hex k \<and> read_bytes fs (file_path_of h k) = Inr v"
    by (auto simp: store_inv_def w)
  have step: "store_inv h0 (h\<lparr>cache' := c\<rparr>, fs)"
    if "\<And>k v. (k, v) \<in> set (cache c) \<Longrightarrow>
        is_hex k \<and> read_bytes fs (file_path_of h k) = Inr v" for c
    using that cfg fh wf by (auto simp: store_inv_def same_config_def)
  show ?thesis
  proof (cases "LRU_getitem (cache' h) k")
    case (Inr vc)
    obtain v c where vc: "vc = (v, c)" by (cases vc)
    from Inr vc assms(2) have w': "w' = (h\<lparr>cache' := c\<rparr>, fs)" by (simp add: load_def w)
    from Inr vc have "set (cache c) \<subseteq> set (cache (cache' h))"
      by (simp add: getitem_entries)
    with ent show ?thesis unfolding w' by (intro step) blast
  next
    case (Inl e)
    then have e: "e = KeyError" by (auto simp: LRU_getitem_eq split: option.splits)
    show ?thesis
    proof (cases "read_bytes fs (file_path_of h k)")
      case rl: (Inl e1)
      with Inl e assms(2) have "w' = (h, fs)" by (simp add: load_def w)
      with assms(1) show ?thesis by (simp add: w)
    next
      case rr: (Inr content)
      from assms(3) fh wf rr have hk: "is_hex k" by (rule readable_key_hex)
      obtain c where set: "LRU_setitem (cache' h) k content = Inr c"
        by (simp add: LRU_setitem_eq Let_def)
      with Inl e rr assms(2) have w': "w' = (h\<lparr>cache' := c\<rparr>, fs)" by (simp add: load_def w)
      have "is_hex k' \<and> read_bytes fs (file_path_of h k') = Inr v"
        if "(k', v) \<in> set (cache c)" for k' v
        using that setitem_entries[OF set] ent hk rr by auto
      then show ?thesis unfolding w' by (rule step)
    qed
  qed
qed

lemma store_inv_start:
  "cache (cache' h0) = [] \<Longrightarrow> store_inv h0 (h0, Map.empty)"
  by (simp add: store_inv_def same_config_def files_named_hex_def fs_wf_def)

lemma reachable_store_inv:
  assumes "cache (cache' h0) = []" and "hex_digests lib h0"
  shows "reachable lib (h0, Map.empty) w \<Longrightarrow> store_inv h0 w"
proof (induction rule: reachable.induct)
  case reach_start
  from assms(1) show ?case by (rule store_inv_start)
next
  case (reach_save w content d w')
  from reach_save.IH assms(2) reach_save.hyps(2) show ?case by (rule store_inv_save)
next
  case (reach_load w url_path r w')
  from reach_load.IH reach_load.hyps(2) content_id_no_slash show ?case
    by (rule store_inv_load)
qed

text \<open>
  C8, as amended: for a store whose digests are non-empty hexadecimal strings (as they
  are for every hash length of at least 1), in every state reached from the empty cache
  and the empty file system by saves that return and by lookups of identifiers taken
  from request paths, every identifier resident in the cache has a file at its sharded
  path that holds the same bytes as the cached value.
\<close>

theorem C8_cache_entries_on_disk:
  assumes "cache (cache' h0) = []" and "hex_digests lib h0"
    and "reachable lib (h0, Map.empty) (h, fs)"
  shows "\<forall>k. LRU_contains (cache' h) k \<longrightarrow>
           (\<exists>v. od_getitem (cache (cache' h)) k = Inr v
                \<and> read_bytes fs (file_path_of h k) = Inr v)"
proof (intro allI impI)
  fix k assume "LRU_contains (cache' h) k"
  then have "k \<in> fst ` set (cache (cache' h))"
    by (simp add: LRU_contains_def od_contains_def)
  then have "map_of (cache (cache' h)) k \<noteq> None"
    by (simp add: map_of_eq_None_iff)
  then obtain v where m: "map_of (cache (cache' h)) k = Some v" by blast
  then have "(k, v) \<in> set (cache (cache' h))" by (rule map_of_SomeD)
  moreover from assms have "store_inv h0 (h, fs)" by (rule reachable_store_inv)
  ultimately have "read_bytes fs (file_path_of h k) = Inr v"
    by (auto simp: store_inv_def)
  with m show "\<exists>v. od_getitem (cache (cache' h)) k = Inr v
      \<and> read_bytes fs (file_path_of h k) = Inr v"
    by (simp add: od_getitem_def)
qed

section \<open>Examples, evaluated\<close>

text \<open>The definitions that a concrete run unfolds.\<close>

lemmas model_eval =
  save_def load_def do_GET_def do_POST_def hash_def file_path_of_def file_location_def
  py_range.simps join_str_def joinpath_def Path_def path_root_def kept_part_def str_int_def
  str_nat.simps digit_char_def py_slice_def slice_bound_def content_id_of_def stream_read_def
  format_header_def mkdir_parents.simps mkdir_exist_ok_def mkdir_except_OSError_def
  is_OSError_def os_mkdir_def locate_def lookup_name_def NAME_MAX_def PATH_MAX_def
  fsencode_length_def path_str_def top_of_def fs_lookup_def
  child_def parent_def is_dir_def write_bytes_def read_bytes_def LRU_setitem_eq
  LRU_getitem_eq LRU_init_def LRU_contains_def od_contains_def od_getitem_def Let_def
  example_lib_def sha256_hex_def example_hasher_def example_world_def example_headers_def

lemma pair_of_fst: "fst x = a \<Longrightarrow> x = (a, snd x)"
  by (cases x) simp

text \<open>The state after the save of \<open>a\<close> with hash length 5.\<close>

lemma save_a_eval:
  "save example_lib (example_world 5 100) ''a'' =
     (Inr ''ca978'',
      \<lparr>hash_algorithm = ''sha256'', hash_length = 5,
      state_dir = \<lparr>p_root = '''', p_parts = [''goto_state'']\<rparr>,
      cache' = \<lparr>max_size = 100, cache = [(''ca978'', ''a'')]\<rparr>\<rparr>,
      [\<lparr>p_root = '''', p_parts = [''goto_state'']\<rparr> \<mapsto> Dir,
      \<lparr>p_root = '''', p_parts = [''goto_state'', ''sha256'']\<rparr> \<mapsto> Dir,
      \<lparr>p_root = '''', p_parts = [''goto_state'', ''sha256'', ''l5'']\<rparr> \<mapsto> Dir,
      \<lparr>p_root = '''', p_parts = [''goto_state'', ''sha256'', ''l5'', ''ca'']\<rparr> \<mapsto> Dir,
      \<lparr>p_root = '''', p_parts = [''goto_state'', ''sha256'', ''l5'', ''ca'', ''97'']\<rparr> \<mapsto> Dir,
      \<lparr>p_root = '''', p_parts = [''goto_state'', ''sha256'', ''l5'', ''ca'', ''97'', ''ca978'']\<rparr> \<mapsto> File ''a''])"
  by (simp add: model_eval)

lemma saved_a_eq:
  "saved_a =
     (\<lparr>hash_algorithm = ''sha256'', hash_length = 5,
      state_dir = \<lparr>p_root = '''', p_parts = [''goto_state'']\<rparr>,
      cache' = \<lparr>max_size = 100, cache = [(''ca978'', ''a'')]\<rparr>\<rparr>,
      [\<lparr>p_root = '''', p_parts = [''goto_state'']\<rparr> \<mapsto> Dir,
      \<lparr>p_root = '''', p_parts = [''goto_state'', ''sha256'']\<rparr> \<mapsto> Dir,
      \<lparr>p_root = '''', p_parts = [''goto_state'', ''sha256'', ''l5'']\<rparr> \<mapsto> Dir,
      \<lparr>p_root = '''', p_parts = [''goto_state'', ''sha256'', ''l5'', ''ca'']\<rparr> \<mapsto> Dir,
      \<lparr>p_root = '''', p_parts = [''goto_state'', ''sha256'', ''l5'', ''ca'', ''97'']\<rparr> \<mapsto> Dir,
      \<lparr>p_root = '''', p_parts = [''goto_state'', ''sha256'', ''l5'', ''ca'', ''97'', ''ca978'']\<rparr> \<mapsto> File ''a''])"
  by (simp add: saved_a_def save_a_eval)

lemma saved_a_result: "save example_lib (example_world 5 100) ''a'' = (Inr ''ca978'', saved_a)"
  by (simp add: saved_a_eq save_a_eval)

lemma example_lib_values:
  "int_of_str example_lib ''2'' = Some 2"
  "decode example_lib content = Some content"
  "encode example_lib s = s"
  "urlparse_geturl example_lib ''a?'' = Some ''a''"
  "urlparse_path example_lib p = Some p"
  "latin1 example_lib s = Some s"
  by (simp_all add: example_lib_def)

lemma post_a_eval:
  "do_POST example_lib (example_world 5 100) example_headers (stream_read ''a?'') =
     Some (Inr \<lparr>status = 200, headers = [(''Content-type'', ''text/plain'')],
                body = ''http://localhost/ca978''\<rparr>,
           saved_a)"
  by (simp add: do_POST_def example_lib_values example_headers_def stream_read_def
      format_header_def saved_a_result)

text \<open>The run with hash length 0.\<close>

lemma alias_save1_eval:
  "save example_lib (example_world 0 100) ''a'' =
     (Inr [],
      \<lparr>hash_algorithm = ''sha256'', hash_length = 0,
      state_dir = \<lparr>p_root = '''', p_parts = [''goto_state'']\<rparr>,
      cache' = \<lparr>max_size = 100, cache = [([], ''a'')]\<rparr>\<rparr>,
      [\<lparr>p_root = '''', p_parts = [''goto_state'']\<rparr> \<mapsto> Dir,
      \<lparr>p_root = '''', p_parts = [''goto_state'', ''sha256'']\<rparr> \<mapsto> Dir,
      \<lparr>p_root = '''', p_parts = [''goto_state'', ''sha256'', ''l0'']\<rparr> \<mapsto> File ''a''])"
  by (simp add: model_eval)

lemma alias_w1_eq:
  "alias_w1 =
     (\<lparr>hash_algorithm = ''sha256'', hash_length = 0,
      state_dir = \<lparr>p_root = '''', p_parts = [''goto_state'']\<rparr>,
      cache' = \<lparr>max_size = 100, cache = [([], ''a'')]\<rparr>\<rparr>,
      [\<lparr>p_root = '''', p_parts = [''goto_state'']\<rparr> \<mapsto> Dir,
      \<lparr>p_root = '''', p_parts = [''goto_state'', ''sha256'']\<rparr> \<mapsto> Dir,
      \<lparr>p_root = '''', p_parts = [''goto_state'', ''sha256'', ''l0'']\<rparr> \<mapsto> File ''a''])"
  by (simp add: alias_w1_def alias_save1_eval)

lemma alias_load_eval:
  "load (\<lparr>hash_algorithm = ''sha256'', hash_length = 0,
      state_dir = \<lparr>p_root = '''', p_parts = [''goto_state'']\<rparr>,
      cache' = \<lparr>max_size = 100, cache = [([], ''a'')]\<rparr>\<rparr>,
      [\<lparr>p_root = '''', p_parts = [''goto_state'']\<rparr> \<mapsto> Dir,
      \<lparr>p_root = '''', p_parts = [''goto_state'', ''sha256'']\<rparr> \<mapsto> Dir,
      \<lparr>p_root = '''', p_parts = [''goto_state'', ''sha256'', ''l0'']\<rparr> \<mapsto> File ''a'']) (content_id_of ''/.'') =
     (Inr ''a'',
      \<lparr>hash_algorithm = ''sha256'', hash_length = 0,
      state_dir = \<lparr>p_root = '''', p_parts = [''goto_state'']\<rparr>,
      cache' = \<lparr>max_size = 100, cache = [([], ''a''), (''.'', ''a'')]\<rparr>\<rparr>,
      [\<lparr>p_root = '''', p_parts = [''goto_state'']\<rparr> \<mapsto> Dir,
      \<lparr>p_root = '''', p_parts = [''goto_state'', ''sha256'']\<rparr> \<mapsto> Dir,
      \<lparr>p_root = '''', p_parts = [''goto_state'', ''sha256'', ''l0'']\<rparr> \<mapsto> File ''a''])"
  by (simp add: model_eval)

lemma alias_w2_eq:
  "alias_w2 =
     (\<lparr>hash_algorithm = ''sha256'', hash_length = 0,
      state_dir = \<lparr>p_root = '''', p_parts = [''goto_state'']\<rparr>,
      cache' = \<lparr>max_size = 100, cache = [([], ''a''), (''.'', ''a'')]\<rparr>\<rparr>,
      [\<lparr>p_root = '''', p_parts = [''goto_state'']\<rparr> \<mapsto> Dir,
      \<lparr>p_root = '''', p_parts = [''goto_state'', ''sha256'']\<rparr> \<mapsto> Dir,
      \<lparr>p_root = '''', p_parts = [''goto_state'', ''sha256'', ''l0'']\<rparr> \<mapsto> File ''a''])"
  by (simp add: alias_w2_def alias_w1_eq alias_load_eval)

lemma alias_save2_eval:
  "save example_lib (\<lparr>hash_algorithm = ''sha256'', hash_length = 0,
      state_dir = \<lparr>p_root = '''', p_parts = [''goto_state'']\<rparr>,
      cache' = \<lparr>max_size = 100, cache = [([], ''a''), (''.'', ''a'')]\<rparr>\<rparr>,
      [\<lparr>p_root = '''', p_parts = [''goto_state'']\<rparr> \<mapsto> Dir,
      \<lparr>p_root = '''', p_parts = [''goto_state'', ''sha256'']\<rparr> \<mapsto> Dir,
      \<lparr>p_root = '''', p_parts = [''goto_state'', ''sha256'', ''l0'']\<rparr> \<mapsto> File ''a'']) ''b'' =
     (Inr [],
      \<lparr>hash_algorithm = ''sha256'', hash_length = 0,
      state_dir = \<lparr>p_root = '''', p_parts = [''goto_state'']\<rparr>,
      cache' = \<lparr>max_size = 100, cache = [(''.'', ''a''), ([], ''b'')]\<rparr>\<rparr>,
      [\<lparr>p_root = '''', p_parts = [''goto_state'']\<rparr> \<mapsto> Dir,
      \<lparr>p_root = '''', p_parts = [''goto_state'', ''sha256'']\<rparr> \<mapsto> Dir,
      \<lparr>p_root = '''', p_parts = [''goto_state'', ''sha256'', ''l0'']\<rparr> \<mapsto> File ''b''])"
  by (simp add: model_eval)

lemma alias_w3_eq:
  "alias_w3 =
     (\<lparr>hash_algorithm = ''sha256'', hash_length = 0,
      state_dir = \<lparr>p_root = '''', p_parts = [''goto_state'']\<rparr>,
      cache' = \<lparr>max_size = 100, cache = [(''.'', ''a''), ([], ''b'')]\<rparr>\<rparr>,
      [\<lparr>p_root = '''', p_parts = [''goto_state'']\<rparr> \<mapsto> Dir,
      \<lparr>p_root = '''', p_parts = [''goto_state'', ''sha256'']\<rparr> \<mapsto> Dir,
      \<lparr>p_root = '''', p_parts = [''goto_state'', ''sha256'', ''l0'']\<rparr> \<mapsto> File ''b''])"
  by (simp add: alias_w3_def alias_w2_eq alias_save2_eval)

lemma do_GET_missing_file:
  assumes "urlparse_path lib request_path = Some url_path"
    and "\<not> LRU_contains (cache' h) (content_id_of url_path)"
    and "read_bytes fs (file_path_of h (content_id_of url_path)) = Inl FileNotFoundError"
  shows "do_GET lib (h, fs) request_path
           = (Inr \<lparr>status = 404, headers = [], body = []\<rparr>, (h, fs))"
proof -
  from assms(2) have "map_of (cache (cache' h)) (content_id_of url_path) = None"
    by (simp add: LRU_contains_def od_contains_def map_of_eq_None_iff)
  with assms(1,3) show ?thesis
    by (simp add: do_GET_def load_def LRU_getitem_eq)
qed

section \<open>Properties of save, load and the handlers\<close>

text \<open>
  C1. After \<open>save\<close> has returned the digest \<open>d\<close> for the content \<open>c\<close>, the lookup of \<open>d\<close>
  returns exactly \<open>c\<close>: the file at the sharded path holds \<open>c\<close>, and when \<open>d\<close> is still in the
  cache the cached value is \<open>c\<close>.
\<close>

theorem C1_load_after_save:
  assumes "save lib w content = (Inr d, w')"
  shows "fst (load w' d) = Inr content
    \<and> read_bytes (snd w') (file_path_of (fst w') d) = Inr content
    \<and> (LRU_contains (cache' (fst w')) d \<longrightarrow>
          od_getitem (cache (cache' (fst w'))) d = Inr content)"
proof -
  obtain h fs where w: "w = (h, fs)" by (cases w)
  from assms[unfolded w] obtain c fs1 fs2
    where set: "LRU_setitem (cache' h) d content = Inr c"
      and wr: "write_bytes fs1 (file_path_of h d) content = Inr fs2"
      and w': "w' = (h\<lparr>cache' := c\<rparr>, fs2)"
    by (rule save_result)
  from wr have rd: "read_bytes fs2 (file_path_of h d) = Inr content"
    by (rule read_after_write)
  from set have k: "map_of (cache c) d = Some content \<or> map_of (cache c) d = None"
    by (rule LRU_setitem_key)
  have hit: "LRU_contains c d \<longrightarrow> od_getitem (cache c) d = Inr content"
    using k by (auto simp: LRU_contains_def od_contains_def od_getitem_def map_of_eq_None_iff)
  have ld: "fst (load w' d) = Inr content"
    using k rd by (auto simp: w' load_def LRU_getitem_eq LRU_setitem_eq Let_def)
  from ld rd hit show ?thesis by (simp add: w')
qed

theorem C1_load_after_save_witness:
  "save example_lib (example_world 5 100) ''a'' = (Inr ''ca978'', saved_a)
   \<and> fst (load saved_a ''ca978'') = Inr ''a''
   \<and> read_bytes (snd saved_a) (file_path_of (fst saved_a) ''ca978'') = Inr ''a''
   \<and> LRU_contains (cache' (fst saved_a)) ''ca978''
   \<and> od_getitem (cache (cache' (fst saved_a))) ''ca978'' = Inr ''a''"
proof -
  have c: "LRU_contains (cache' (fst saved_a)) ''ca978''"
    by (simp add: saved_a_eq LRU_contains_def od_contains_def)
  from C1_load_after_save[OF saved_a_result] saved_a_result c show ?thesis by blast
qed

text \<open>
  C9 does not hold of the code. It states: a GET of an identifier that was never written
  returns status 404 with an empty body. The request path \<open>/\<close> has the empty identifier,
  and \<open>pathlib\<close> drops empty components, so its path is the directory
  \<open>goto_state/sha256/l5\<close>. Before the first save the directory is missing and the answer
  is 404; after a save it exists, \<open>read_bytes\<close> raises \<open>IsADirectoryError\<close>, which
  \<open>do_GET\<close> does not catch, and no response is sent.
\<close>

theorem C9_get_root_after_save:
  "save example_lib (example_world 5 100) ''a'' = (Inr ''ca978'', saved_a)
   \<and> content_id_of ''/'' = ''''
   \<and> \<not> LRU_contains (cache' (fst saved_a)) ''''
   \<and> fst (do_GET example_lib saved_a ''/'') = Inl IsADirectoryError
   \<and> fst (do_GET example_lib (example_world 5 100) ''/'')
       = Inr \<lparr>status = 404, headers = [], body = []\<rparr>"
  by (simp add: saved_a_result) (simp add: saved_a_eq model_eval)

text \<open>
  C6 does not hold as stated. It states: the handler saves the bytes of the string as it was
  submitted, not of its re-serialized form. The code saves \<open>url.encode()\<close>, where \<open>url\<close> is
  the re-serialized form: for the body \<open>a?\<close>, which \<open>urlparse\<close> re-serializes to \<open>a\<close>, the
  stored content and the digest in the answer are those of \<open>a\<close>.
\<close>

theorem C6_post_saves_reserialized_url:
  "stream_read ''a?'' 2 = Some (Inr ''a?'')
   \<and> decode example_lib ''a?'' = Some ''a?''
   \<and> urlparse_geturl example_lib ''a?'' = Some ''a''
   \<and> do_POST example_lib (example_world 5 100) example_headers (stream_read ''a?'') =
       Some (Inr \<lparr>status = 200, headers = [(''Content-type'', ''text/plain'')],
                  body = ''http://localhost/ca978''\<rparr>,
             saved_a)
   \<and> cache (cache' (fst saved_a)) = [(''ca978'', ''a'')]
   \<and> read_bytes (snd saved_a) (file_path_of (fst saved_a) ''ca978'') = Inr ''a''
   \<and> fst (save example_lib (example_world 5 100) ''a?'') = Inr ''5289f''"
proof -
  have "fst (save example_lib (example_world 5 100) ''a?'') = Inr ''5289f''"
    by (simp add: model_eval)
  moreover have "read_bytes (snd saved_a) (file_path_of (fst saved_a) ''ca978'') = Inr ''a''"
    by (simp add: saved_a_eq model_eval)
  ultimately show ?thesis
    by (simp add: post_a_eval example_lib_values stream_read_def) (simp add: saved_a_eq)
qed

text \<open>
  C6, as amended: for every POST whose body, as the handler reads it, parses and
  re-serializes to a non-empty string, the handler calls \<open>save\<close> on the encoded bytes of
  the re-serialized string and, when \<open>save\<close> returns the digest \<open>d\<close>, answers with status
  200, content type \<open>text/plain\<close> and the body \<open>http://<Host header value>/<d>\<close>; when
  \<open>save\<close> raises, the handler raises the same exception and answers nothing.
\<close>

theorem C6_post_saves_url_and_answers:
  assumes "request_headers ''Content-Length'' = Some cl"
    and "int_of_str lib cl = Some n"
    and "rfile_read n = Some (Inr submitted_bytes)"
    and "decode lib submitted_bytes = Some submitted"
    and "urlparse_geturl lib submitted = Some url"
    and "url \<noteq> []"
  shows "do_POST lib w request_headers rfile_read =
           Some (case save lib w (encode lib url) of
                   (Inl e, w') \<Rightarrow> (Inl e, w')
                 | (Inr d, w') \<Rightarrow>
                     (Inr \<lparr>status = 200, headers = [(''Content-type'', ''text/plain'')],
                           body = encode lib (''http://''
                                    @ format_header (request_headers ''Host'') @ ''/'' @ d)\<rparr>,
                      w'))"
  using assms by (simp add: do_POST_def split: prod.splits sum.splits)

theorem C6_post_saves_url_and_answers_witness:
  "example_headers ''Content-Length'' = Some ''2''
   \<and> int_of_str example_lib ''2'' = Some 2
   \<and> stream_read ''a?'' 2 = Some (Inr ''a?'')
   \<and> decode example_lib ''a?'' = Some ''a?''
   \<and> urlparse_geturl example_lib ''a?'' = Some ''a''
   \<and> save example_lib (example_world 5 100) (encode example_lib ''a'') = (Inr ''ca978'', saved_a)
   \<and> do_POST example_lib (example_world 5 100) example_headers (stream_read ''a?'') =
           Some (Inr \<lparr>status = 200, headers = [(''Content-type'', ''text/plain'')],
                      body = ''http://localhost/ca978''\<rparr>,
                 saved_a)"
proof -
  have h1: "example_headers ''Content-Length'' = Some ''2''"
    by (simp add: example_headers_def)
  have h2: "int_of_str example_lib ''2'' = Some 2" by (simp add: example_lib_values)
  have h3: "stream_read ''a?'' 2 = Some (Inr ''a?'')" by (simp add: stream_read_def)
  have h4: "decode example_lib ''a?'' = Some ''a?''" by (simp add: example_lib_values)
  have h5: "urlparse_geturl example_lib ''a?'' = Some ''a''" by (simp add: example_lib_values)
  have h6: "''a'' \<noteq> []" by simp
  have h7: "save example_lib (example_world 5 100) (encode example_lib ''a'')
      = (Inr ''ca978'', saved_a)"
    by (simp add: example_lib_values saved_a_result)
  from C6_post_saves_url_and_answers[where request_headers = example_headers
      and lib = example_lib and rfile_read = "stream_read ''a?''"
      and w = "example_world 5 100", OF h1 h2 h3 h4 h5 h6] h1 h2 h3 h4 h5 h7 show ?thesis
    by (simp add: example_lib_values example_headers_def format_header_def)
qed

lemma alias_w1_result: "save example_lib (example_world 0 100) ''a'' = (Inr [], alias_w1)"
  by (simp add: alias_w1_eq alias_save1_eval)

lemma alias_w2_result: "load alias_w1 (content_id_of ''/.'') = (Inr ''a'', alias_w2)"
  by (simp only: alias_w1_eq alias_w2_eq alias_load_eval)

lemma alias_w3_result: "save example_lib alias_w2 ''b'' = (Inr [], alias_w3)"
  by (simp only: alias_w2_eq alias_w3_eq alias_save2_eval)

text \<open>
  C8 does not hold as stated. It states: in every state reached by saves and lookups from the empty
  cache and the empty store, every identifier in the cache has a file with the same
  bytes. With hash length 0 every digest is the empty string and every content is
  stored in the one file \<open>goto_state/sha256/l0\<close>, which is also the path of the identifier
  \<open>.\<close>: after a save of \<open>a\<close>, a GET of \<open>/.\<close> and a save of \<open>b\<close>, the cache holds \<open>a\<close> for
  \<open>.\<close> while the file at its path holds \<open>b\<close>.
\<close>

theorem C8_stale_cache_entry_hash_length_zero:
  "cache (cache' (fst (example_world 0 100))) = []
   \<and> snd (example_world 0 100) = Map.empty
   \<and> reachable example_lib (example_world 0 100) alias_w3
   \<and> od_getitem (cache (cache' (fst alias_w3))) ''.'' = Inr ''a''
   \<and> read_bytes (snd alias_w3) (file_path_of (fst alias_w3) ''.'') = Inr ''b''"
proof -
  have "reachable example_lib (example_world 0 100) alias_w1"
    using reach_start alias_w1_result by (rule reach_save)
  then have "reachable example_lib (example_world 0 100) alias_w2"
    using alias_w2_result by (rule reach_load)
  then have "reachable example_lib (example_world 0 100) alias_w3"
    using alias_w3_result by (rule reach_save)
  moreover have "od_getitem (cache (cache' (fst alias_w3))) ''.'' = Inr ''a''"
    by (simp add: alias_w3_eq od_getitem_def)
  moreover have "read_bytes (snd alias_w3) (file_path_of (fst alias_w3) ''.'') = Inr ''b''"
    by (simp add: alias_w3_eq model_eval)
  ultimately show ?thesis by (simp add: example_world_def example_hasher_def LRU_init_def)
qed

lemma example_hex_provider: "hex_provider example_lib ''sha256''"
  by (simp add: hex_provider_def example_lib_def sha256_hex_def is_hex_def hexdigits_def)

theorem C8_cache_entries_on_disk_witness:
  "cache (cache' (example_hasher 5 100)) = []
   \<and> hex_digests example_lib (example_hasher 5 100)
   \<and> reachable example_lib (example_hasher 5 100, Map.empty) (fst saved_a, snd saved_a)
   \<and> LRU_contains (cache' (fst saved_a)) ''ca978''
   \<and> od_getitem (cache (cache' (fst saved_a))) ''ca978'' = Inr ''a''
   \<and> read_bytes (snd saved_a) (file_path_of (fst saved_a) ''ca978'') = Inr ''a''"
proof -
  have h1: "cache (cache' (example_hasher 5 100)) = []"
    by (simp add: example_hasher_def LRU_init_def)
  have h2: "hex_digests example_lib (example_hasher 5 100)"
    using example_hex_provider by (intro hex_provider_digests) (simp_all add: example_hasher_def)
  have "reachable example_lib (example_world 5 100) saved_a"
    using reach_start saved_a_result by (rule reach_save)
  then have h3: "reachable example_lib (example_hasher 5 100, Map.empty) (fst saved_a, snd saved_a)"
    by (simp add: example_world_def)
  have c: "LRU_contains (cache' (fst saved_a)) ''ca978''"
    by (simp add: saved_a_eq LRU_contains_def od_contains_def)
  have g: "od_getitem (cache (cache' (fst saved_a))) ''ca978'' = Inr ''a''"
    by (simp add: saved_a_eq od_getitem_def)
  from C8_cache_entries_on_disk[OF h1 h2 h3] c g h1 h2 h3 show ?thesis by auto
qed

end
